theory Spec2Isabelle
  imports Complex_Main "HOL-Library.Multiset" "HOL-Library.Sublist"
begin

section \<open>Randomness\<close>

text \<open>
  Python's \<open>random\<close> module is modelled by the list of raw draws it will deliver:
  \<open>randbelow n\<close> consumes one draw and reduces it below \<open>n\<close>.  Every run of the
  program corresponds to some list of draws, so a statement for all lists covers all runs.
\<close>

type_synonym rng = "nat list"

fun randbelow :: "nat \<Rightarrow> rng \<Rightarrow> nat \<times> rng" where
  "randbelow n [] = (0, [])"
| "randbelow n (r # rs) = (r mod n, rs)"

text \<open>\<open>random.choice(seq)\<close> is \<open>seq[randbelow(len(seq))]\<close>.\<close>

definition choice :: "'a list \<Rightarrow> rng \<Rightarrow> 'a \<times> rng" where
  "choice seq rs = (let (k, rs') = randbelow (length seq) rs in (seq ! k, rs'))"

text \<open>
  \<open>random.shuffle(x)\<close>: for \<open>i\<close> from \<open>len(x) - 1\<close> down to \<open>1\<close>, draw
  \<open>j = randbelow(i + 1)\<close> and exchange \<open>x[i]\<close> and \<open>x[j]\<close>.
\<close>

fun shuffle_from :: "nat \<Rightarrow> 'a list \<Rightarrow> rng \<Rightarrow> 'a list \<times> rng" where
  "shuffle_from 0 xs rs = (xs, rs)"
| "shuffle_from (Suc i) xs rs =
     (let (j, rs') = randbelow (Suc i + 1) rs
      in shuffle_from i (xs[Suc i := xs ! j, j := xs ! Suc i]) rs')"

definition shuffle :: "'a list \<Rightarrow> rng \<Rightarrow> 'a list \<times> rng" where
  "shuffle xs rs = shuffle_from (length xs - 1) xs rs"

section \<open>OpenAIRegister: password generation (register\_service.py)\<close>

definition upper :: string where "upper = ''ABCDEFGHJKLMNPQRSTUVWXYZ''"
definition lower :: string where "lower = ''abcdefghjkmnpqrstuvwxyz''"
definition digits :: string where "digits = ''23456789''"
definition specials :: string where "specials = ''!@#$%^&*''"
definition all_chars :: string where "all_chars = upper @ lower @ digits"

text \<open>The filling loop \<open>for _ in range(10): password += random.choice(all_chars)\<close>.\<close>

fun fill :: "nat \<Rightarrow> string \<Rightarrow> rng \<Rightarrow> string \<times> rng" where
  "fill 0 password rs = (password, rs)"
| "fill (Suc n) password rs =
     (let (c, rs') = choice all_chars rs in fill n (password @ [c]) rs')"

definition generate_password :: "rng \<Rightarrow> string \<times> rng" where
  "generate_password rs =
     (let (c1, rs1) = choice upper rs;
          (c2, rs2) = choice lower rs1;
          (c3, rs3) = choice digits rs2;
          (c4, rs4) = choice specials rs3;
          (password, rs5) = fill 10 [c1, c2, c3, c4] rs4
      in shuffle password rs5)"

text \<open>Character classes of the claim about passwords.\<close>

definition is_upper :: "char \<Rightarrow> bool" where
  "is_upper c = (c \<in> set ''ABCDEFGHIJKLMNOPQRSTUVWXYZ'')"
definition is_lower :: "char \<Rightarrow> bool" where
  "is_lower c = (c \<in> set ''abcdefghijklmnopqrstuvwxyz'')"
definition is_digit :: "char \<Rightarrow> bool" where
  "is_digit c = (c \<in> set ''0123456789'')"
definition ambiguous :: string where "ambiguous = ''IOilo01''"

section \<open>Properties of password generation\<close>

lemma randbelow_less: "0 < n \<Longrightarrow> fst (randbelow n rs) < n"
  by (cases rs) auto

lemma choice_in_set: "seq \<noteq> [] \<Longrightarrow> fst (choice seq rs) \<in> set seq"
  using randbelow_less [of "length seq" rs]
  by (auto simp: choice_def split: prod.splits)

lemma shuffle_from_mset:
  "i < length xs \<Longrightarrow> mset (fst (shuffle_from i xs rs)) = mset xs"
proof (induction i arbitrary: xs rs)
  case 0
  then show ?case by simp
next
  case (Suc i)
  obtain j rs' where r: "randbelow (Suc i + 1) rs = (j, rs')"
    by (cases "randbelow (Suc i + 1) rs")
  have "j < Suc i + 1"
    using randbelow_less [of "Suc i + 1" rs] r by simp
  with Suc.prems have j: "j < length xs" by simp
  let ?ys = "xs[Suc i := xs ! j, j := xs ! Suc i]"
  have "mset ?ys = mset xs"
    using mset_swap [of j xs "Suc i"] Suc.prems j by simp
  moreover have "mset (fst (shuffle_from i ?ys rs')) = mset ?ys"
    using Suc.IH [of ?ys rs'] Suc.prems by simp
  ultimately show ?case using r by simp
qed

lemma shuffle_mset: "mset (fst (shuffle xs rs)) = mset xs"
proof (cases xs)
  case Nil
  then show ?thesis by (simp add: shuffle_def)
next
  case (Cons a as)
  then show ?thesis by (simp add: shuffle_def shuffle_from_mset)
qed

lemma fill_length: "length (fst (fill n p rs)) = length p + n"
  by (induction n arbitrary: p rs) (auto split: prod.splits)

lemma fill_set:
  "set (fst (fill n p rs)) \<subseteq> set p \<union> set all_chars"
proof (induction n arbitrary: p rs)
  case 0
  then show ?case by simp
next
  case (Suc n)
  obtain c rs' where c: "choice all_chars rs = (c, rs')"
    by (cases "choice all_chars rs")
  have "all_chars \<noteq> []" by (simp add: all_chars_def upper_def)
  then have "c \<in> set all_chars" using choice_in_set [of all_chars rs] c by simp
  moreover have "set (fst (fill n (p @ [c]) rs')) \<subseteq> set (p @ [c]) \<union> set all_chars"
    by (rule Suc.IH)
  ultimately show ?case using c by auto
qed

lemma fill_keeps: "set p \<subseteq> set (fst (fill n p rs))"
proof (induction n arbitrary: p rs)
  case 0
  then show ?case by simp
next
  case (Suc n)
  obtain c rs' where c: "choice all_chars rs = (c, rs')"
    by (cases "choice all_chars rs")
  have "set (p @ [c]) \<subseteq> set (fst (fill n (p @ [c]) rs'))" by (rule Suc.IH)
  then show ?case using c by auto
qed

lemma upper_chars: "c \<in> set upper \<Longrightarrow> is_upper c \<and> c \<notin> set ambiguous"
  by (auto simp: upper_def is_upper_def ambiguous_def)

lemma lower_chars: "c \<in> set lower \<Longrightarrow> is_lower c \<and> c \<notin> set ambiguous"
  by (auto simp: lower_def is_lower_def ambiguous_def)

lemma digits_chars: "c \<in> set digits \<Longrightarrow> is_digit c \<and> c \<notin> set ambiguous"
  by (auto simp: digits_def is_digit_def ambiguous_def)

lemma specials_chars: "c \<in> set specials \<Longrightarrow> c \<notin> set ambiguous"
  by (auto simp: specials_def ambiguous_def)

text \<open>
  C10.  Every password produced by \<open>_generate_password\<close> has exactly 14 characters,
  contains an uppercase letter, a lowercase letter, a digit and one of the special
  characters \<open>!@#$%^&*\<close>, and contains none of the ambiguous characters
  \<open>I O i l o 0 1\<close>, whatever the random draws are.
\<close>

theorem generate_password_shape:
  "length (fst (generate_password rs)) = 14
   \<and> Bex (set (fst (generate_password rs))) is_upper
   \<and> Bex (set (fst (generate_password rs))) is_lower
   \<and> Bex (set (fst (generate_password rs))) is_digit
   \<and> set (fst (generate_password rs)) \<inter> set specials \<noteq> {}
   \<and> set (fst (generate_password rs)) \<inter> set ambiguous = {}"
proof -
  obtain c1 rs1 where c1: "choice upper rs = (c1, rs1)" by (cases "choice upper rs")
  obtain c2 rs2 where c2: "choice lower rs1 = (c2, rs2)" by (cases "choice lower rs1")
  obtain c3 rs3 where c3: "choice digits rs2 = (c3, rs3)" by (cases "choice digits rs2")
  obtain c4 rs4 where c4: "choice specials rs3 = (c4, rs4)" by (cases "choice specials rs3")
  let ?p0 = "[c1, c2, c3, c4]"
  obtain p rs5 where p: "fill 10 ?p0 rs4 = (p, rs5)" by (cases "fill 10 ?p0 rs4")
  have gp: "generate_password rs = shuffle p rs5"
    by (simp add: generate_password_def c1 c2 c3 c4 p)
  have m: "mset (fst (generate_password rs)) = mset p"
    by (simp add: gp shuffle_mset)
  have s: "set (fst (generate_password rs)) = set p"
    using m by (rule mset_eq_setD)
  have len: "length (fst (generate_password rs)) = 14"
    using mset_eq_length [OF m] fill_length [of 10 ?p0 rs4] p by simp
  have m1: "c1 \<in> set upper"
    using choice_in_set [of upper rs] c1 by (simp add: upper_def)
  have m2: "c2 \<in> set lower"
    using choice_in_set [of lower rs1] c2 by (simp add: lower_def)
  have m3: "c3 \<in> set digits"
    using choice_in_set [of digits rs2] c3 by (simp add: digits_def)
  have m4: "c4 \<in> set specials"
    using choice_in_set [of specials rs3] c4 by (simp add: specials_def)
  have keep: "set ?p0 \<subseteq> set p" using fill_keeps [of ?p0 10 rs4] p by simp
  have sub: "set p \<subseteq> set ?p0 \<union> set all_chars" using fill_set [of 10 ?p0 rs4] p by simp
  have amb: "set p \<inter> set ambiguous = {}"
  proof -
    have "\<And>c. c \<in> set p \<Longrightarrow> c \<notin> set ambiguous"
    proof -
      fix c assume "c \<in> set p"
      then have "c \<in> set ?p0 \<union> set all_chars" using sub by blast
      then have "c \<in> set upper \<or> c \<in> set lower \<or> c \<in> set digits \<or> c \<in> set specials"
        using m1 m2 m3 m4 by (auto simp: all_chars_def)
      then show "c \<notin> set ambiguous"
        using upper_chars lower_chars digits_chars specials_chars by blast
    qed
    then show ?thesis by blast
  qed
  have u: "Bex (set p) is_upper" using keep m1 upper_chars by auto
  have l: "Bex (set p) is_lower" using keep m2 lower_chars by auto
  have d: "Bex (set p) is_digit" using keep m3 digits_chars by auto
  have sp: "set p \<inter> set specials \<noteq> {}" using keep m4 by auto
  show ?thesis using len u l d sp amb by (simp only: s) simp
qed


section \<open>Python strings\<close>

text \<open>
  A Python \<open>str\<close> is modelled by the bytes of its UTF-8 encoding.  \<open>str.lower()\<close> is
  modelled on the ASCII letters, \<open>str.endswith\<close> and \<open>str.startswith\<close> compare
  the last and the first characters, \<open>sub in s\<close> is \<open>contains sub s\<close>.
\<close>

definition lower_char :: "char \<Rightarrow> char" where
  "lower_char c =
     (case map_of (zip ''ABCDEFGHIJKLMNOPQRSTUVWXYZ'' ''abcdefghijklmnopqrstuvwxyz'') c of
        Some d \<Rightarrow> d | None \<Rightarrow> c)"

definition str_lower :: "string \<Rightarrow> string" where
  "str_lower s = map lower_char s"

definition endswith :: "string \<Rightarrow> string \<Rightarrow> bool" where
  "endswith s suf = (length suf \<le> length s \<and> drop (length s - length suf) s = suf)"

definition startswith :: "string \<Rightarrow> string \<Rightarrow> bool" where
  "startswith s pre = (take (length pre) s = pre)"

fun contains :: "string \<Rightarrow> string \<Rightarrow> bool" where
  "contains sub [] = (sub = [])"
| "contains sub (c # cs) = (startswith (c # cs) sub \<or> contains sub cs)"

section \<open>TempMailService: mailbox acquisition (tempmail\_service.py)\<close>

definition BLOCKED_SUFFIXES :: "string list" where
  "BLOCKED_SUFFIXES = [''.top'']"

text \<open>
  \<open>is_email_supported\<close>: the value read from the reply is a string or \<open>None\<close>;
  \<open>not email\<close> holds for \<open>None\<close> and for the empty string.
\<close>

definition is_email_supported :: "string option \<Rightarrow> bool" where
  "is_email_supported email =
     (case email of
        None \<Rightarrow> False
      | Some e \<Rightarrow> e \<noteq> [] \<and> \<not> list_ex (\<lambda>suffix. endswith (str_lower e) suffix) BLOCKED_SUFFIXES)"

text \<open>
  What one \<open>create\<close> request can come to: the HTTP client raises, the response is not
  \<open>ok\<close>, its body is not JSON, or it is a JSON object.  Of the object the code reads
  whether \<open>code\<close> is \<open>"0"\<close> and the field \<open>data\<close>: missing or falsy, an object
  without the key \<open>email\<close>, or an object whose \<open>email\<close> is a string or null.
\<close>

datatype create_data = NoData | DataWithoutEmail | DataEmail "string option"

datatype create_reply =
    CreateRaises
  | CreateNotOk
  | CreateNotJson
  | CreateJson bool create_data

datatype mail_error =
    MailTransport
  | MailHttpStatus
  | MailJsonDecode
  | MailKeyError
  | MailApiError
  | MailRetriesExhausted

text \<open>
  The state of the service and of its provider: the \<open>email\<close> attribute, the number of
  \<open>create\<close> requests sent so far, and the seconds slept between attempts.  The provider
  is the function giving the reply to the request with a given number.
\<close>

record temp_mail =
  email :: "string option"
  create_requests :: nat
  slept :: nat

text \<open>The body of the \<open>try\<close> block of one attempt; \<open>Inr None\<close> is the \<open>continue\<close>.\<close>

definition create_attempt :: "create_reply \<Rightarrow> mail_error + string option" where
  "create_attempt reply =
     (case reply of
        CreateRaises \<Rightarrow> Inl MailTransport
      | CreateNotOk \<Rightarrow> Inl MailHttpStatus
      | CreateNotJson \<Rightarrow> Inl MailJsonDecode
      | CreateJson code_ok d \<Rightarrow>
          (if code_ok \<and> d \<noteq> NoData then
             (case d of
                DataEmail e \<Rightarrow> if \<not> is_email_supported e then Inr None else Inr e
              | _ \<Rightarrow> Inl MailKeyError)
           else Inl MailApiError))"

text \<open>
  \<open>for attempt in range(1, max_retries + 1)\<close>, with \<open>k\<close> the number of attempts left:
  the running attempt is \<open>max_retries - k\<close> after the decrement, and it is the last one
  when none is left.
\<close>

fun get_email_attempts ::
  "(nat \<Rightarrow> create_reply) \<Rightarrow> nat \<Rightarrow> temp_mail \<Rightarrow> (mail_error + string) \<times> temp_mail" where
  "get_email_attempts provider 0 tm = (Inl MailRetriesExhausted, tm)"
| "get_email_attempts provider (Suc k) tm =
     (let reply = provider (create_requests tm);
          tm1 = tm\<lparr>create_requests := Suc (create_requests tm)\<rparr>
      in case create_attempt reply of
           Inr (Some e) \<Rightarrow> (Inr e, tm1\<lparr>email := Some e\<rparr>)
         | Inr None \<Rightarrow> get_email_attempts provider k tm1
         | Inl err \<Rightarrow>
             if k = 0 then (Inl err, tm1)
             else get_email_attempts provider k (tm1\<lparr>slept := Suc (slept tm1)\<rparr>))"

definition get_email_address ::
  "(nat \<Rightarrow> create_reply) \<Rightarrow> nat \<Rightarrow> temp_mail \<Rightarrow> (mail_error + string) \<times> temp_mail" where
  "get_email_address provider max_retries tm = get_email_attempts provider max_retries tm"

text \<open>A reply that carries an address with a blocked suffix.\<close>

definition blocked_reply :: "create_reply \<Rightarrow> bool" where
  "blocked_reply reply =
     (case reply of
        CreateJson True (DataEmail (Some e)) \<Rightarrow> endswith (str_lower e) ''.top''
      | _ \<Rightarrow> False)"

section \<open>Properties of mailbox acquisition\<close>

lemma get_email_attempts_result:
  "get_email_attempts provider k tm = (Inr e, tm') \<Longrightarrow>
     e \<noteq> [] \<and> \<not> endswith (str_lower e) ''.top'' \<and> email tm' = Some e"
proof (induction k arbitrary: tm)
  case 0
  then show ?case by simp
next
  case (Suc k)
  let ?tm1 = "tm\<lparr>create_requests := Suc (create_requests tm)\<rparr>"
  show ?case
  proof (cases "create_attempt (provider (create_requests tm))")
    case (Inl err)
    with Suc.prems have "k \<noteq> 0" by (auto simp: Let_def split: if_splits)
    with Suc.prems Inl
    have "get_email_attempts provider k (?tm1\<lparr>slept := Suc (slept ?tm1)\<rparr>) = (Inr e, tm')"
      by (simp add: Let_def)
    then show ?thesis by (rule Suc.IH)
  next
    case (Inr r)
    show ?thesis
    proof (cases r)
      case None
      with Suc.prems Inr have "get_email_attempts provider k ?tm1 = (Inr e, tm')"
        by (simp add: Let_def)
      then show ?thesis by (rule Suc.IH)
    next
      case (Some a)
      with Suc.prems Inr have ea: "a = e" and tm': "tm' = ?tm1\<lparr>email := Some e\<rparr>"
        by (auto simp: Let_def)
      from Inr Some ea have "is_email_supported (Some e)"
        by (auto simp: create_attempt_def split: create_reply.splits create_data.splits if_splits)
      then show ?thesis
        using tm' by (simp add: is_email_supported_def BLOCKED_SUFFIXES_def)
    qed
  qed
qed

lemma get_email_attempts_requests:
  "create_requests (snd (get_email_attempts provider k tm)) \<le> create_requests tm + k
   \<and> create_requests tm \<le> create_requests (snd (get_email_attempts provider k tm))"
proof (induction k arbitrary: tm)
  case 0
  then show ?case by simp
next
  case (Suc k)
  let ?tm1 = "tm\<lparr>create_requests := Suc (create_requests tm)\<rparr>"
  have a: "create_requests (snd (get_email_attempts provider k ?tm1)) \<le> create_requests ?tm1 + k
     \<and> create_requests ?tm1 \<le> create_requests (snd (get_email_attempts provider k ?tm1))"
    by (rule Suc.IH)
  have b: "create_requests (snd (get_email_attempts provider k (?tm1\<lparr>slept := Suc (slept ?tm1)\<rparr>)))
       \<le> create_requests (?tm1\<lparr>slept := Suc (slept ?tm1)\<rparr>) + k
     \<and> create_requests (?tm1\<lparr>slept := Suc (slept ?tm1)\<rparr>)
       \<le> create_requests (snd (get_email_attempts provider k (?tm1\<lparr>slept := Suc (slept ?tm1)\<rparr>)))"
    by (rule Suc.IH)
  show ?case
    using a b by (auto simp: Let_def split: sum.splits option.splits)
qed

lemma blocked_reply_continue: "blocked_reply reply \<Longrightarrow> create_attempt reply = Inr None"
  by (auto simp: blocked_reply_def create_attempt_def is_email_supported_def
      BLOCKED_SUFFIXES_def endswith_def
      split: create_reply.splits create_data.splits option.splits bool.splits)

lemma get_email_attempts_all_blocked:
  "(\<And>i. i < k \<Longrightarrow> blocked_reply (provider (create_requests tm + i))) \<Longrightarrow>
     get_email_attempts provider k tm
       = (Inl MailRetriesExhausted, tm\<lparr>create_requests := create_requests tm + k\<rparr>)"
proof (induction k arbitrary: tm)
  case 0
  then show ?case by simp
next
  case (Suc k)
  let ?tm1 = "tm\<lparr>create_requests := Suc (create_requests tm)\<rparr>"
  have "blocked_reply (provider (create_requests tm))" using Suc.prems [of 0] by simp
  then have c: "create_attempt (provider (create_requests tm)) = Inr None"
    by (rule blocked_reply_continue)
  have "\<And>i. i < k \<Longrightarrow> blocked_reply (provider (create_requests ?tm1 + i))"
    using Suc.prems by force
  then have "get_email_attempts provider k ?tm1
       = (Inl MailRetriesExhausted, ?tm1\<lparr>create_requests := create_requests ?tm1 + k\<rparr>)"
    by (rule Suc.IH)
  then show ?case using c by (simp add: Let_def)
qed

text \<open>
  C9.  A successful call of \<open>get_email_address\<close> returns a non-empty address that does
  not end, case-insensitively, in \<open>.top\<close>, and stores it; the call sends at most
  \<open>max_retries\<close> requests; an address with a blocked suffix is dropped without a pause
  and the next attempt follows; and when every reply carries a blocked address the call
  fails after exactly \<open>max_retries\<close> requests.
\<close>

theorem get_email_address_never_blocked:
  "(get_email_address provider max_retries tm = (Inr e, tm') \<longrightarrow>
      e \<noteq> [] \<and> \<not> endswith (str_lower e) ''.top'' \<and> email tm' = Some e)
   \<and> create_requests (snd (get_email_address provider max_retries tm))
        \<le> create_requests tm + max_retries
   \<and> (blocked_reply (provider (create_requests tm)) \<longrightarrow>
        get_email_address provider (Suc k) tm
          = get_email_address provider k (tm\<lparr>create_requests := Suc (create_requests tm)\<rparr>))
   \<and> ((\<forall>i < max_retries. blocked_reply (provider (create_requests tm + i))) \<longrightarrow>
        get_email_address provider max_retries tm
          = (Inl MailRetriesExhausted, tm\<lparr>create_requests := create_requests tm + max_retries\<rparr>))"
proof -
  have a: "get_email_address provider max_retries tm = (Inr e, tm') \<longrightarrow>
      e \<noteq> [] \<and> \<not> endswith (str_lower e) ''.top'' \<and> email tm' = Some e"
    unfolding get_email_address_def using get_email_attempts_result by blast
  have b: "create_requests (snd (get_email_address provider max_retries tm))
        \<le> create_requests tm + max_retries"
    unfolding get_email_address_def using get_email_attempts_requests by blast
  have c: "blocked_reply (provider (create_requests tm)) \<longrightarrow>
        get_email_address provider (Suc k) tm
          = get_email_address provider k (tm\<lparr>create_requests := Suc (create_requests tm)\<rparr>)"
    unfolding get_email_address_def
    by (auto simp: Let_def dest: blocked_reply_continue)
  have d: "(\<forall>i < max_retries. blocked_reply (provider (create_requests tm + i))) \<longrightarrow>
        get_email_address provider max_retries tm
          = (Inl MailRetriesExhausted, tm\<lparr>create_requests := create_requests tm + max_retries\<rparr>)"
    unfolding get_email_address_def using get_email_attempts_all_blocked by blast
  show ?thesis using a b c d by blast
qed

text \<open>
  The provider of the witness answers the first two requests with addresses ending in
  \<open>.TOP\<close> and \<open>.top\<close> and every later one with a supported address.
\<close>

definition provider_two_blocked :: "nat \<Rightarrow> create_reply" where
  "provider_two_blocked n =
     (if n = 0 then CreateJson True (DataEmail (Some ''a@x.TOP''))
      else if n = 1 then CreateJson True (DataEmail (Some ''b@y.top''))
      else CreateJson True (DataEmail (Some ''c@z.com'')))"

definition fresh_mail :: temp_mail where
  "fresh_mail = \<lparr>email = None, create_requests = 0, slept = 0\<rparr>"

theorem get_email_address_never_blocked_witness:
  "get_email_address provider_two_blocked 10 fresh_mail
     = (Inr ''c@z.com'', \<lparr>email = Some ''c@z.com'', create_requests = 3, slept = 0\<rparr>)
   \<and> \<not> endswith (str_lower ''c@z.com'') ''.top''
   \<and> blocked_reply (provider_two_blocked (create_requests fresh_mail))
   \<and> get_email_address provider_two_blocked (Suc 1) fresh_mail
       = get_email_address provider_two_blocked 1 (fresh_mail\<lparr>create_requests := Suc (create_requests fresh_mail)\<rparr>)
   \<and> blocked_reply (provider_two_blocked (create_requests fresh_mail + 0))
   \<and> blocked_reply (provider_two_blocked (create_requests fresh_mail + 1))
   \<and> get_email_address provider_two_blocked 2 fresh_mail
       = (Inl MailRetriesExhausted, fresh_mail\<lparr>create_requests := create_requests fresh_mail + 2\<rparr>)"
proof -
  have run: "get_email_address provider_two_blocked 10 fresh_mail
     = (Inr ''c@z.com'', \<lparr>email = Some ''c@z.com'', create_requests = 3, slept = 0\<rparr>)"
    by (simp add: get_email_address_def eval_nat_numeral provider_two_blocked_def fresh_mail_def
        create_attempt_def is_email_supported_def BLOCKED_SUFFIXES_def endswith_def
        str_lower_def lower_char_def Let_def)
  have b0: "blocked_reply (provider_two_blocked (create_requests fresh_mail))"
    by (simp add: provider_two_blocked_def fresh_mail_def blocked_reply_def endswith_def
        str_lower_def lower_char_def)
  have b1: "\<forall>i < 2. blocked_reply (provider_two_blocked (create_requests fresh_mail + i))"
  proof (intro allI impI)
    fix i :: nat assume "i < 2"
    then have "i = 0 \<or> i = 1" by auto
    then show "blocked_reply (provider_two_blocked (create_requests fresh_mail + i))"
      by (auto simp: provider_two_blocked_def fresh_mail_def blocked_reply_def endswith_def
          str_lower_def lower_char_def)
  qed
  note t = get_email_address_never_blocked
    [of provider_two_blocked 10 fresh_mail "''c@z.com''"
      "\<lparr>email = Some ''c@z.com'', create_requests = 3, slept = 0\<rparr>" 1]
  note u = get_email_address_never_blocked
    [of provider_two_blocked 2 fresh_mail "''c@z.com''"
      "\<lparr>email = Some ''c@z.com'', create_requests = 3, slept = 0\<rparr>" 1]
  have b2: "blocked_reply (provider_two_blocked (create_requests fresh_mail + 1))"
    by (simp add: provider_two_blocked_def fresh_mail_def blocked_reply_def endswith_def
        str_lower_def lower_char_def)
  show ?thesis using run b0 b1 b2 t u by simp
qed


section \<open>TempMailService: code extraction (tempmail\_service.py)\<close>

text \<open>
  The content is a Python \<open>str\<close>, a sequence of code points; \<open>cps\<close> gives the code
  points of an ASCII literal.  The module \<open>re\<close> classifies code points by the Unicode
  database: \<open>\d\<close> is a decimal digit, \<open>\s\<close> is white space, a word character for
  \<open>\b\<close> is an alphanumeric character or the underscore, and under \<open>re.IGNORECASE\<close> a
  literal also matches its case variants.  For the code points below 128 all of this is
  fixed here; for the others the database is a parameter of the model: the class of
  each code point, and which code points are case variants of which.  A decimal digit is
  a word character and has no case variants, and the three ideographs that occur in the
  patterns are word characters.
\<close>

definition cps :: "string \<Rightarrow> nat list" where
  "cps s = map of_char s"

datatype cp_class = Digit | Space | Word | Other

record unicode =
  classify :: "nat \<Rightarrow> cp_class"
  folds :: "nat \<Rightarrow> nat \<Rightarrow> bool"

text \<open>
  Below 128: the digits, the white space of \<open>str.isspace\<close> (with the separators
  \<open>0x1C\<close> to \<open>0x1F\<close>), and the letters and the underscore.
\<close>

definition ascii_class :: "nat \<Rightarrow> cp_class" where
  "ascii_class c =
     (if 48 \<le> c \<and> c \<le> 57 then Digit
      else if c = 32 \<or> (9 \<le> c \<and> c \<le> 13) \<or> (28 \<le> c \<and> c \<le> 31) then Space
      else if (65 \<le> c \<and> c \<le> 90) \<or> (97 \<le> c \<and> c \<le> 122) \<or> c = 95 then Word
      else Other)"

definition pattern_ideographs :: "nat list" where
  "pattern_ideographs = [0x9A8C, 0x8BC1, 0x7801]"

definition class_of :: "unicode \<Rightarrow> nat \<Rightarrow> cp_class" where
  "class_of db c =
     (if c < 128 then ascii_class c
      else if c \<in> set pattern_ideographs then Word
      else classify db c)"

definition is_decimal :: "unicode \<Rightarrow> nat \<Rightarrow> bool" where
  "is_decimal db c = (class_of db c = Digit)"

definition is_space :: "unicode \<Rightarrow> nat \<Rightarrow> bool" where
  "is_space db c = (class_of db c = Space)"

definition is_word :: "unicode \<Rightarrow> nat \<Rightarrow> bool" where
  "is_word db c = (class_of db c = Digit \<or> class_of db c = Word)"

definition ascii_lower :: "nat \<Rightarrow> nat" where
  "ascii_lower c = (if 65 \<le> c \<and> c \<le> 90 then c + 32 else c)"

text \<open>
  Whether the code point \<open>x\<close> of the content matches the literal \<open>c\<close> of a pattern
  compiled with \<open>re.IGNORECASE\<close>: they are equal, or both are below 128 and equal up
  to the case of a letter, or the database makes them case variants.
\<close>

definition ci_eq :: "unicode \<Rightarrow> nat \<Rightarrow> nat \<Rightarrow> bool" where
  "ci_eq db c x =
     (c = x
      \<or> (c < 128 \<and> x < 128 \<and> ascii_lower c = ascii_lower x)
      \<or> ((128 \<le> c \<or> 128 \<le> x) \<and> class_of db c \<noteq> Digit \<and> class_of db x \<noteq> Digit
           \<and> folds db c x))"

datatype cls = ColonOrSpace | OnlySpace

fun cls_ok :: "unicode \<Rightarrow> cls \<Rightarrow> nat \<Rightarrow> bool" where
  "cls_ok db ColonOrSpace c = (c = 58 \<or> is_space db c)"
| "cls_ok db OnlySpace c = is_space db c"

text \<open>
  The nine patterns of \<open>code_patterns\<close> use literals, the classes \<open>[:\s]\<close> and
  \<open>\s\<close> under \<open>*\<close> and \<open>+\<close>, one group \<open>(\d{6})\<close> and \<open>\b\<close>.
  \<open>Chr c\<close> is a literal code point; \<open>Rep cl lo\<close> is the class repeated at least
  \<open>lo\<close> times, greedily; \<open>Digits6\<close> is the group \<open>(\d{6})\<close>; \<open>WordB\<close> is \<open>\b\<close>.
\<close>

datatype item = Chr nat | Rep cls nat | Digits6 | WordB

definition word_boundary :: "unicode \<Rightarrow> nat option \<Rightarrow> nat list \<Rightarrow> bool" where
  "word_boundary db prev s =
     ((case prev of None \<Rightarrow> False | Some p \<Rightarrow> is_word db p)
      \<noteq> (case s of [] \<Rightarrow> False | x # _ \<Rightarrow> is_word db x))"

text \<open>
  Matching a pattern at a position: \<open>prev\<close> is the code point before the position,
  \<open>s\<close> the rest of the content, \<open>cap\<close> the group captured so far.  A repetition tries
  the longest run first and gives code points back one at a time.
\<close>

fun match_items ::
    "unicode \<Rightarrow> item list \<Rightarrow> nat option \<Rightarrow> nat list \<Rightarrow> nat list \<Rightarrow> nat list option"
  and match_repeat ::
    "unicode \<Rightarrow> item list \<Rightarrow> nat \<Rightarrow> nat \<Rightarrow> nat option \<Rightarrow> nat list \<Rightarrow> nat list \<Rightarrow> nat list option"
where
  "match_items db [] prev s cap = Some cap"
| "match_items db (Chr c # items) prev s cap =
     (case s of
        [] \<Rightarrow> None
      | x # xs \<Rightarrow> if ci_eq db c x then match_items db items (Some x) xs cap else None)"
| "match_items db (Digits6 # items) prev s cap =
     (if 6 \<le> length s \<and> list_all (is_decimal db) (take 6 s)
      then match_items db items (Some (s ! 5)) (drop 6 s) (take 6 s)
      else None)"
| "match_items db (WordB # items) prev s cap =
     (if word_boundary db prev s then match_items db items prev s cap else None)"
| "match_items db (Rep cl lo # items) prev s cap =
     match_repeat db items lo (length (takeWhile (cls_ok db cl) s)) prev s cap"
| "match_repeat db items lo k prev s cap =
     (if k < lo then None
      else case match_items db items (if k = 0 then prev else Some (s ! (k - 1))) (drop k s) cap of
             Some r \<Rightarrow> Some r
           | None \<Rightarrow> (case k of 0 \<Rightarrow> None | Suc j \<Rightarrow> match_repeat db items lo j prev s cap))"

definition match_at :: "unicode \<Rightarrow> item list \<Rightarrow> nat list \<Rightarrow> nat \<Rightarrow> nat list option" where
  "match_at db items s i =
     match_items db items (if i = 0 then None else Some (s ! (i - 1))) (drop i s) []"

text \<open>The first \<open>Some\<close> that \<open>f\<close> gives along a list.\<close>

fun first_some :: "('a \<Rightarrow> 'b option) \<Rightarrow> 'a list \<Rightarrow> 'b option" where
  "first_some f [] = None"
| "first_some f (x # xs) = (case f x of Some r \<Rightarrow> Some r | None \<Rightarrow> first_some f xs)"

text \<open>
  \<open>re.search(pattern, content).group(1)\<close>: the match at the leftmost position that has
  one, the positions running from \<open>0\<close> to \<open>len(content)\<close>.
\<close>

definition re_search :: "unicode \<Rightarrow> item list \<Rightarrow> nat list \<Rightarrow> nat list option" where
  "re_search db items s = first_some (match_at db items s) [0 ..< Suc (length s)]"

definition lit :: "string \<Rightarrow> item list" where
  "lit s = map Chr (cps s)"

definition code_patterns :: "item list list" where
  "code_patterns =
     [ lit ''code is '' @ [Digits6],
       lit ''code'' @ [Rep ColonOrSpace 1, Digits6],
       lit ''verification code'' @ [Rep ColonOrSpace 1, Digits6],
       lit ''verify'' @ [Rep ColonOrSpace 1, Digits6],
       map Chr pattern_ideographs @ [Rep ColonOrSpace 0, Digits6],
       lit ''Your code is'' @ [Rep ColonOrSpace 0, Digits6],
       lit ''Enter this code'' @ [Rep ColonOrSpace 0, Digits6],
       lit ''>'' @ [Rep OnlySpace 0, Digits6, Rep OnlySpace 0] @ lit ''<'',
       [WordB, Digits6, WordB] ]"

text \<open>\<open>extract_code_from_content\<close>; \<open>not content\<close> holds for the empty string.\<close>

definition extract_code_from_content :: "unicode \<Rightarrow> nat list \<Rightarrow> nat list option" where
  "extract_code_from_content db content =
     (if content = [] then None
      else first_some (\<lambda>pattern. re_search db pattern content) code_patterns)"

text \<open>
  A database for the examples: the fullwidth digits, the no-break space and the
  ideographic space, the letters long s, dotless i and Kelvin sign with the ASCII
  letters they are variants of, and the fullwidth colon as a code point that is no word
  character.
\<close>

definition sample_unicode :: unicode where
  "sample_unicode =
     \<lparr>classify = (\<lambda>c. if 0xFF10 \<le> c \<and> c \<le> 0xFF19 then Digit
                        else if c = 0xA0 \<or> c = 0x3000 then Space
                        else if c = 0x17F \<or> c = 0x131 \<or> c = 0x130 \<or> c = 0x212A then Word
                        else Other),
      folds = (\<lambda>c x. (ascii_lower c = 115 \<and> x = 0x17F)
                       \<or> (ascii_lower c = 105 \<and> (x = 0x131 \<or> x = 0x130))
                       \<or> (ascii_lower c = 107 \<and> x = 0x212A))\<rparr>"

section \<open>Properties of code extraction\<close>

text \<open>What the group \<open>(\d{6})\<close> captures.\<close>

definition six_digits :: "unicode \<Rightarrow> nat list \<Rightarrow> bool" where
  "six_digits db r = (length r = 6 \<and> list_all (is_decimal db) r)"

lemma first_some_SomeD: "first_some f xs = Some r \<Longrightarrow> \<exists>x \<in> set xs. f x = Some r"
  by (induction xs) (auto split: option.splits)

lemma first_some_None: "(\<And>x. x \<in> set xs \<Longrightarrow> f x = None) \<Longrightarrow> first_some f xs = None"
  by (induction xs) auto

lemma first_some_append:
  "first_some f (xs @ ys) = (case first_some f xs of Some r \<Rightarrow> Some r | None \<Rightarrow> first_some f ys)"
  by (induction xs) (auto split: option.splits)

lemma first_some_upt:
  assumes "k < n" and "\<And>i. i < k \<Longrightarrow> f i = None" and "f k = Some r"
  shows "first_some f [0 ..< n] = Some r"
proof -
  have "[0 ..< n] = [0 ..< k] @ k # [Suc k ..< n]"
    using assms(1) by (metis less_imp_le_nat upt_add_eq_append upt_conv_Cons zero_le plus_nat.add_0 le_add_diff_inverse)
  moreover have "first_some f [0 ..< k] = None"
    using assms(2) by (intro first_some_None) simp
  ultimately show ?thesis using assms(3) by (simp add: first_some_append)
qed

lemma capture_shape:
  "(match_items db items prev s cap = Some r \<longrightarrow>
      (if Digits6 \<in> set items then six_digits db r else r = cap))"
  "(match_repeat db items lo k prev s cap = Some r \<longrightarrow>
      (if Digits6 \<in> set items then six_digits db r else r = cap))"
proof (induction db items prev s cap and db items lo k prev s cap rule: match_items_match_repeat.induct)
  case (1 db prev s cap)
  then show ?case by simp
next
  case (2 db c items prev s cap)
  then show ?case by (auto split: list.splits if_splits)
next
  case (3 db items prev s cap)
  then show ?case by (auto simp: six_digits_def split: if_splits)
next
  case (4 db items prev s cap)
  then show ?case by (auto split: if_splits)
next
  case (5 db cl lo items prev s cap)
  then show ?case by simp
next
  case (6 db items lo k prev s cap)
  show ?case
  proof (cases "k < lo")
    case True
    then show ?thesis by simp
  next
    case False
    show ?thesis
    proof (cases "match_items db items (if k = 0 then prev else Some (s ! (k - 1))) (drop k s) cap")
      case None
      then show ?thesis using False 6(2) by (cases k) auto
    next
      case (Some a)
      then show ?thesis using False 6(1) by auto
    qed
  qed
qed

lemma code_patterns_capture: "p \<in> set code_patterns \<Longrightarrow> Digits6 \<in> set p"
  by (auto simp: code_patterns_def lit_def)

lemma re_search_six:
  assumes "re_search db p c = Some r" and "Digits6 \<in> set p"
  shows "six_digits db r"
proof -
  obtain i where "match_at db p c i = Some r"
    using assms(1) first_some_SomeD [of "match_at db p c" "[0 ..< Suc (length c)]" r]
    unfolding re_search_def by blast
  then show ?thesis
    using capture_shape(1) [of db p "if i = 0 then None else Some (c ! (i - 1))" "drop i c" "[]" r] assms(2)
    unfolding match_at_def by simp
qed

lemma extract_six:
  assumes "extract_code_from_content db c = Some r"
  shows "six_digits db r"
proof -
  have "first_some (\<lambda>pattern. re_search db pattern c) code_patterns = Some r"
    using assms by (auto simp: extract_code_from_content_def split: if_splits)
  then obtain p where "p \<in> set code_patterns" and "re_search db p c = Some r"
    using first_some_SomeD [of "\<lambda>pattern. re_search db pattern c" code_patterns r] by blast
  then show ?thesis using re_search_six code_patterns_capture by blast
qed

text \<open>A literal that is no decimal digit matches no decimal digit.\<close>

lemma ascii_lower_digit:
  assumes "c < 128" and "ascii_class (ascii_lower c) = Digit"
  shows "ascii_class c = Digit"
proof (cases "65 \<le> c \<and> c \<le> 90")
  case True
  then have "ascii_class (ascii_lower c) = Word"
    by (simp add: ascii_lower_def ascii_class_def)
  then show ?thesis using assms(2) by simp
next
  case False
  then have "ascii_lower c = c" by (auto simp: ascii_lower_def)
  then show ?thesis using assms(2) by simp
qed

lemma digit_not_folded:
  assumes "is_decimal db x" and "\<not> is_decimal db c"
  shows "\<not> ci_eq db c x"
proof
  assume m: "ci_eq db c x"
  have ne: "c \<noteq> x" using assms by auto
  have nf: "\<not> ((128 \<le> c \<or> 128 \<le> x) \<and> class_of db c \<noteq> Digit \<and> class_of db x \<noteq> Digit
           \<and> folds db c x)"
    using assms(1) by (simp add: is_decimal_def)
  from m ne nf have a: "c < 128 \<and> x < 128 \<and> ascii_lower c = ascii_lower x"
    unfolding ci_eq_def by blast
  then have dx: "ascii_class x = Digit"
    using assms(1) by (simp add: is_decimal_def class_of_def)
  then have "\<not> (65 \<le> x \<and> x \<le> 90)"
    by (auto simp: ascii_class_def split: if_splits)
  then have "ascii_lower x = x" by (simp add: ascii_lower_def)
  then have "ascii_class (ascii_lower c) = Digit" using a dx by simp
  then have "ascii_class c = Digit" using a ascii_lower_digit by blast
  then show False using assms(2) a by (simp add: is_decimal_def class_of_def)
qed

lemma literal_fails_on_digits:
  assumes "list_all (is_decimal db) s" and "\<not> is_decimal db c"
  shows "re_search db (Chr c # items) s = None"
proof -
  have "match_at db (Chr c # items) s i = None" for i
  proof (cases "drop i s")
    case Nil
    then show ?thesis by (simp add: match_at_def)
  next
    case (Cons x xs)
    then have "x \<in> set (drop i s)" by simp
    then have "x \<in> set s" by (rule in_set_dropD)
    then have "is_decimal db x" using assms(1) by (simp add: list_all_iff)
    then have "\<not> ci_eq db c x" using assms(2) by (rule digit_not_folded)
    then show ?thesis using Cons by (simp add: match_at_def)
  qed
  then show ?thesis unfolding re_search_def by (intro first_some_None) simp
qed

lemma bare_digits_match:
  assumes "six_digits db s"
  shows "re_search db [WordB, Digits6, WordB] s = Some s"
proof -
  obtain a b c d e f where s: "s = [a, b, c, d, e, f]"
    using assms unfolding six_digits_def
    by (auto simp: length_Suc_conv eval_nat_numeral)
  have da: "is_word db a" and df: "is_word db f"
    using assms s by (auto simp: six_digits_def is_word_def is_decimal_def)
  have "list_all (is_decimal db) s" using assms by (simp add: six_digits_def)
  then have "match_at db [WordB, Digits6, WordB] s 0 = Some s"
    using da df s by (simp add: match_at_def word_boundary_def)
  then show ?thesis
    unfolding re_search_def by (simp add: upt_conv_Cons del: upt_Suc)
qed

lemma pattern_literals_no_digits:
  "\<not> is_decimal db 99" "\<not> is_decimal db 118" "\<not> is_decimal db 0x9A8C"
  "\<not> is_decimal db 89" "\<not> is_decimal db 69" "\<not> is_decimal db 62"
  by (simp_all add: is_decimal_def class_of_def ascii_class_def pattern_ideographs_def)

lemma extract_fixed_point:
  assumes "six_digits db s"
  shows "extract_code_from_content db s = Some s"
proof -
  have d: "list_all (is_decimal db) s" and ne: "s \<noteq> []"
    using assms by (auto simp: six_digits_def)
  have n: "\<And>c items. \<not> is_decimal db c \<Longrightarrow> re_search db (Chr c # items) s = None"
    using literal_fails_on_digits [OF d] by blast
  have m: "re_search db [WordB, Digits6, WordB] s = Some s"
    using assms by (rule bare_digits_match)
  show ?thesis
    using ne m
    by (simp add: extract_code_from_content_def code_patterns_def lit_def cps_def
        pattern_ideographs_def n pattern_literals_no_digits)
qed

lemma code_is_matches:
  "match_items db (lit ''code is '' @ [Digits6]) prev (cps ''code is 123456'' @ post) []
     = Some (cps ''123456'')"
  by (simp add: lit_def cps_def ci_eq_def is_decimal_def class_of_def ascii_class_def)

lemma code_is_leftmost:
  assumes "\<And>i. i < length pre \<Longrightarrow>
             match_at db (lit ''code is '' @ [Digits6]) (pre @ cps ''code is 123456'' @ post) i = None"
  shows "extract_code_from_content db (pre @ cps ''code is 123456'' @ post) = Some (cps ''123456'')"
proof -
  let ?c = "pre @ cps ''code is 123456'' @ post"
  let ?p = "lit ''code is '' @ [Digits6]"
  have "match_at db ?p ?c (length pre) = Some (cps ''123456'')"
    unfolding match_at_def using code_is_matches by simp
  moreover have "length pre < Suc (length ?c)" by simp
  ultimately have "re_search db ?p ?c = Some (cps ''123456'')"
    unfolding re_search_def
    using assms first_some_upt [of "length pre" "Suc (length ?c)" "match_at db ?p ?c"]
    by blast
  moreover have "?c \<noteq> []" by (simp add: cps_def)
  ultimately show ?thesis
    by (simp add: extract_code_from_content_def code_patterns_def)
qed

text \<open>
  C7 (as amended).  \<open>extract_code_from_content\<close> is idempotent: a code it returns is
  returned again when the function is applied to the code.  It follows the order of the
  patterns: when the content holds \<open>code is 123456\<close> and the first pattern
  \<open>code is (\d{6})\<close> matches at no earlier position, the result is \<open>123456\<close>,
  whatever other runs of six digits the content holds before or after it.  Both hold
  whatever the Unicode database says about the code points from 128 on.
\<close>

theorem extract_code_idempotent_leftmost:
  "(extract_code_from_content db c = Some s \<longrightarrow> extract_code_from_content db s = Some s)
   \<and> ((\<forall>i < length pre.
          match_at db (hd code_patterns) (pre @ cps ''code is 123456'' @ post) i = None) \<longrightarrow>
        extract_code_from_content db (pre @ cps ''code is 123456'' @ post) = Some (cps ''123456''))"
proof -
  have h: "hd code_patterns = lit ''code is '' @ [Digits6]"
    by (simp add: code_patterns_def)
  show ?thesis
    using extract_six extract_fixed_point code_is_leftmost unfolding h by blast
qed

text \<open>
  The examples: six fullwidth fives, and six fullwidth nines with a space.  The content
  \<open>code is\<close> followed by the fullwidth fives yields them, and they yield themselves;
  the fullwidth nines before \<open>code is 123456\<close> do not keep the first pattern from
  giving \<open>123456\<close>.
\<close>

definition fullwidth_fives :: "nat list" where
  "fullwidth_fives = [0xFF15, 0xFF15, 0xFF15, 0xFF15, 0xFF15, 0xFF15]"

definition fullwidth_nines_space :: "nat list" where
  "fullwidth_nines_space = [0xFF19, 0xFF19, 0xFF19, 0xFF19, 0xFF19, 0xFF19, 32]"

lemmas extract_unfold =
  extract_code_from_content_def code_patterns_def re_search_def match_at_def lit_def cps_def
  ci_eq_def ascii_lower_def is_decimal_def is_space_def is_word_def word_boundary_def
  class_of_def ascii_class_def sample_unicode_def pattern_ideographs_def

theorem extract_code_idempotent_leftmost_witness:
  "extract_code_from_content sample_unicode (cps ''code is '' @ fullwidth_fives) = Some fullwidth_fives
   \<and> extract_code_from_content sample_unicode fullwidth_fives = Some fullwidth_fives
   \<and> extract_code_from_content sample_unicode
        (fullwidth_nines_space @ cps ''code is 123456'' @ cps '' 888888'') = Some (cps ''123456'')"
proof -
  have a: "extract_code_from_content sample_unicode (cps ''code is '' @ fullwidth_fives)
             = Some fullwidth_fives"
    by (simp add: extract_unfold fullwidth_fives_def)
  have b: "\<forall>i < length fullwidth_nines_space.
          match_at sample_unicode (hd code_patterns)
            (fullwidth_nines_space @ cps ''code is 123456'' @ cps '' 888888'') i = None"
    by (simp add: All_less_Suc extract_unfold fullwidth_nines_space_def)
  show ?thesis
    using a b
      extract_code_idempotent_leftmost
        [of sample_unicode "cps ''code is '' @ fullwidth_fives" fullwidth_fives
          fullwidth_nines_space "cps '' 888888''"]
    by blast
qed

text \<open>
  C7 as stated fails: a content can hold both \<open>code is 123456\<close> and a separate
  \<open>999999\<close> and still give another code, because \<open>re.search\<close> returns the
  leftmost match of the first pattern.
\<close>

theorem extract_code_priority_counterexample:
  "extract_code_from_content sample_unicode
       (cps ''code is 555555 and '' @ cps ''code is 123456'' @ cps '' and 999999'')
     = Some (cps ''555555'')
   \<and> extract_code_from_content sample_unicode
       (cps ''code is 555555 and '' @ cps ''code is 123456'' @ cps '' and 999999'')
     \<noteq> Some (cps ''123456'')"
  by (simp add: extract_unfold)

section \<open>The event-loop clock and the SMS provider\<close>

text \<open>
  The world outside the program, as far as the SMS client sees it.  \<open>now\<close> is the
  event-loop clock in milliseconds.  The provider's behaviour is scripted: \<open>replies\<close>
  holds, for the coming HTTP attempts in order, the latency of the attempt and what it
  comes to; \<open>fallback\<close> is used once the script is used up.  An attempt with latency
  \<open>d\<close> takes \<open>d + 1\<close> milliseconds, so that every attempt takes time.  \<open>sent\<close> records
  the requests in the order they were sent, \<open>waits\<close> counts the calls of
  \<open>wait_for_verification_code\<close>, and \<open>saved\<close> is the account store.
\<close>

datatype request =
    GetNumberV2 "string option" "string option" "rat option"
  | SetStatus nat nat
  | GetStatus nat

datatype http_outcome =
    Raises string
  | Response bool string string

record account =
  acc_email :: string
  acc_access_token :: string
  acc_session_token :: "string option"

record world =
  now :: nat
  replies :: "(nat \<times> http_outcome) list"
  fallback :: "nat \<times> http_outcome"
  sent :: "request list"
  waits :: nat
  saved :: "account list"
  decode_number :: "string \<Rightarrow> (nat \<times> string) option"
  is_float :: "string \<Rightarrow> bool"

definition sleep :: "nat \<Rightarrow> world \<Rightarrow> world" where
  "sleep ms w = w\<lparr>now := now w + ms\<rparr>"

definition http_get :: "request \<Rightarrow> world \<Rightarrow> http_outcome \<times> world" where
  "http_get req w =
     (let (d, out) = (case replies w of [] \<Rightarrow> fallback w | x # _ \<Rightarrow> x)
      in (out, w\<lparr>now := now w + Suc d, replies := tl (replies w), sent := sent w @ [req]\<rparr>))"

section \<open>Exceptions\<close>

text \<open>
  One constructor for each place that raises, carrying the parts of the message that
  come from outside.  The program inspects messages by substring tests; the three
  tests it makes are defined on the constructors, from the literal of each message.
\<close>

datatype error =
    AttributeError string
  | TransportError string
  | HttpError string string
  | ApiRequestFailed
  | SmsKeyUnset
  | BadKey
  | NoNumbers
  | ProhibitedForSale
  | RegionUnavailable
  | PriceTooLow string
  | ValueError string
  | BadNumberReply
  | NoActivationIdYet
  | NoActivation
  | BadStatus
  | BadAction
  | Cancelled
  | WaitTimeout nat
  | LoadStateTimeout
  | ReuseWithoutPhone
  | NoSessionToken
  | NoAccessToken
  | StartFailed string
  | ReloadTimeout
  | RestartFailed
  | RetriesExceeded
  | NoVerificationCode
  | FinishFailed string
  | LaunchFailed
  | DriverInitFailed
  | MailKeyUnset
  | MailError mail_error
  | RegisterRaised
  | RegisterFailed
  | OnboardingFailed
  | PersistFailed

text \<open>The bytes of the two Chinese phrases looked for: "timed out" and "maximum price set too low".\<close>

definition phrase_timeout :: string where
  "phrase_timeout = [CHR 0xE8, CHR 0xB6, CHR 0x85, CHR 0xE6, CHR 0x97, CHR 0xB6]"

definition phrase_price_too_low :: string where
  "phrase_price_too_low =
     [CHR 0xE6, CHR 0x9C, CHR 0x80, CHR 0xE9, CHR 0xAB, CHR 0x98, CHR 0xE4, CHR 0xBB, CHR 0xB7,
      CHR 0xE6, CHR 0xA0, CHR 0xBC, CHR 0xE8, CHR 0xAE, CHR 0xBE, CHR 0xE7, CHR 0xBD, CHR 0xAE,
      CHR 0xE8, CHR 0xBF, CHR 0x87, CHR 0xE4, CHR 0xBD, CHR 0x8E]"

text \<open>The text of the messages that carry outside parts.\<close>

definition http_error_text :: "string \<Rightarrow> string \<Rightarrow> string" where
  "http_error_text status_code text = ''HTTP '' @ status_code @ '': '' @ text"

text \<open>
  \<open>str.lower()\<close> on the bytes of a message.  Beside the ASCII capitals, two code
  points lower to a string with an ASCII letter in it: the Kelvin sign \<open>U+212A\<close>
  gives \<open>k\<close>, and the capital I with a dot above \<open>U+0130\<close> gives \<open>i\<close> and
  the combining dot \<open>U+0307\<close>.  Every other code point from 128 on lowers to code
  points from 128 on; its bytes are left as they are, which does not change where an
  ASCII keyword occurs.
\<close>

function py_lower :: "string \<Rightarrow> string" where
  "py_lower [] = []"
| "py_lower (c # cs) =
     (if take 3 (c # cs) = [CHR 0xE2, CHR 0x84, CHR 0xAA] then CHR ''k'' # py_lower (drop 2 cs)
      else if take 2 (c # cs) = [CHR 0xC4, CHR 0xB0]
      then CHR ''i'' # CHR 0xCC # CHR 0x87 # py_lower (drop 1 cs)
      else lower_char c # py_lower cs)"
  by pat_completeness auto
termination
  by (relation "measure length") auto

text \<open>\<open>'...' in str(error) or 'timeout' in str(error).lower()\<close>, the first phrase being "timed out".\<close>

definition mentions_timeout :: "string \<Rightarrow> bool" where
  "mentions_timeout m = (contains phrase_timeout m \<or> contains ''timeout'' (py_lower m))"

fun has_timeout :: "error \<Rightarrow> bool" where
  "has_timeout (WaitTimeout t) = True"
| "has_timeout RetriesExceeded = True"
| "has_timeout (TransportError m) = mentions_timeout m"
| "has_timeout (HttpError c t) = mentions_timeout (http_error_text c t)"
| "has_timeout (StartFailed m) = mentions_timeout m"
| "has_timeout (FinishFailed m) = mentions_timeout m"
| "has_timeout (ValueError m) = mentions_timeout m"
| "has_timeout LoadStateTimeout = True"
| "has_timeout ReloadTimeout = True"
| "has_timeout _ = False"

text \<open>The test of \<open>_api_request\<close> for a network error.\<close>

definition mentions_network :: "string \<Rightarrow> bool" where
  "mentions_network m =
     list_ex (\<lambda>keyword. contains keyword (py_lower m))
       [''network'', ''connection'', ''timeout'', ''econnrefused'', ''etimedout'']"

fun is_network_error :: "error \<Rightarrow> bool" where
  "is_network_error (TransportError m) = mentions_network m"
| "is_network_error (HttpError c t) = mentions_network (http_error_text c t)"
| "is_network_error _ = False"

text \<open>The test of the driver for a rejected price.\<close>

fun has_price_too_low :: "error \<Rightarrow> bool" where
  "has_price_too_low (PriceTooLow p) = True"
| "has_price_too_low (TransportError m) = contains phrase_price_too_low m"
| "has_price_too_low (HttpError c t) = contains phrase_price_too_low (http_error_text c t)"
| "has_price_too_low (ValueError m) = contains phrase_price_too_low m"
| "has_price_too_low _ = False"

section \<open>GrizzlySMSService (sms\_service.py)\<close>

record sms_service =
  api_key :: string
  service :: "string option"
  country :: "string option"
  max_price :: "rat option"
  activation_id :: "nat option"
  phone_number :: "string option"

text \<open>Python truth of an optional number and of an optional string.\<close>

definition truthy_id :: "nat option \<Rightarrow> bool" where
  "truthy_id x = (case x of None \<Rightarrow> False | Some n \<Rightarrow> n \<noteq> 0)"

definition truthy_str :: "string option \<Rightarrow> bool" where
  "truthy_str x = (case x of None \<Rightarrow> False | Some s \<Rightarrow> s \<noteq> [])"

definition STATUS_READY :: nat where "STATUS_READY = 1"
definition STATUS_RESEND :: nat where "STATUS_RESEND = 3"
definition STATUS_COMPLETE :: nat where "STATUS_COMPLETE = 6"
definition STATUS_CANCEL :: nat where "STATUS_CANCEL = 8"

definition sms_init :: "sms_service \<Rightarrow> error + unit" where
  "sms_init s = (if api_key s = [] then Inl SmsKeyUnset else Inr ())"

text \<open>
  \<open>_api_request\<close>: \<open>k\<close> attempts are left after the running one, which is attempt
  \<open>retries - k\<close>; it is the last one when \<open>k = 0\<close>.  With \<open>retries = 0\<close> the loop body
  never runs and the final \<open>raise\<close> is reached with no last error.
\<close>

fun api_attempts :: "request \<Rightarrow> nat \<Rightarrow> nat \<Rightarrow> world \<Rightarrow> (error + string) \<times> world" where
  "api_attempts req retries 0 w = (Inl ApiRequestFailed, w)"
| "api_attempts req retries (Suc k) w =
     (let (out, w1) = http_get req w;
          attempt = retries - k
      in case (case out of
                 Raises m \<Rightarrow> Inl (TransportError m)
               | Response ok status_code text \<Rightarrow>
                   if \<not> ok then Inl (HttpError status_code text) else Inr text) of
           Inr text \<Rightarrow> (Inr text, w1)
         | Inl e \<Rightarrow>
             if k = 0 then (Inl e, w1)
             else if is_network_error e then api_attempts req retries k (sleep (attempt * 1000) w1)
             else (Inl e, w1))"

definition api_request :: "request \<Rightarrow> world \<Rightarrow> (error + string) \<times> world" where
  "api_request req w = api_attempts req 3 3 w"

text \<open>\<open>str.split(sep)\<close> for a separator of one character.\<close>

fun split_on :: "char \<Rightarrow> string \<Rightarrow> string list" where
  "split_on sep [] = [[]]"
| "split_on sep (c # cs) =
     (if c = sep then [] # split_on sep cs
      else (case split_on sep cs of [] \<Rightarrow> [[c]] | p # ps \<Rightarrow> (c # p) # ps))"

text \<open>\<open>parts[1] if len(parts) > 1 else None\<close>.\<close>

definition second_part :: "string \<Rightarrow> string option" where
  "second_part response =
     (case split_on CHR '':'' response of p # q # _ \<Rightarrow> Some q | _ \<Rightarrow> None)"

text \<open>
  \<open>get_number\<close>, called with no service, country or provider lists.  A \<open>max_price\<close>
  argument of \<open>None\<close> stands for the price of the instance.
\<close>

definition get_number ::
  "rat option \<Rightarrow> sms_service \<Rightarrow> world \<Rightarrow> (error + string) \<times> sms_service \<times> world" where
  "get_number max_price_arg s w =
     (let final_max_price = (case max_price_arg of Some p \<Rightarrow> Some p | None \<Rightarrow> max_price s);
          (r, w1) = api_request (GetNumberV2 (service s) (country s) final_max_price) w
      in case r of
           Inl e \<Rightarrow> (Inl e, s, w1)
         | Inr response \<Rightarrow>
             if response = ''BAD_KEY'' then (Inl BadKey, s, w1)
             else if response = ''NO_NUMBERS'' then (Inl NoNumbers, s, w1)
             else if contains ''prohibited for sale'' response then (Inl ProhibitedForSale, s, w1)
             else if response = ''SERVICE_UNAVAILABLE_REGION'' then (Inl RegionUnavailable, s, w1)
             else if startswith response ''WRONG_MAX_PRICE:'' then
               (case second_part response of
                  None \<Rightarrow> (Inl (ValueError []), s, w1)
                | Some p \<Rightarrow>
                    if is_float w1 p then (Inl (PriceTooLow p), s, w1)
                    else (Inl (ValueError p), s, w1))
             else
               (case decode_number w1 response of
                  None \<Rightarrow> (Inl BadNumberReply, s, w1)
                | Some (aid, phone) \<Rightarrow>
                    (Inr phone, s\<lparr>activation_id := Some aid, phone_number := Some phone\<rparr>, w1)))"

text \<open>\<open>set_status(status)\<close> on the activation of the instance.\<close>

definition set_status :: "nat \<Rightarrow> sms_service \<Rightarrow> world \<Rightarrow> (error + string) \<times> world" where
  "set_status status s w =
     (case activation_id s of
        None \<Rightarrow> (Inl NoActivationIdYet, w)
      | Some i \<Rightarrow>
          if i = 0 then (Inl NoActivationIdYet, w)
          else case api_request (SetStatus status i) w of
                 (Inl e, w1) \<Rightarrow> (Inl e, w1)
               | (Inr response, w1) \<Rightarrow>
                   if response = ''BAD_KEY'' then (Inl BadKey, w1)
                   else if response = ''NO_ACTIVATION'' then (Inl NoActivation, w1)
                   else if response = ''BAD_STATUS'' then (Inl BadStatus, w1)
                   else (Inr response, w1))"

datatype status_info =
    WAIT_CODE
  | WAIT_RETRY "string option"
  | WAIT_RESEND
  | CANCEL
  | OK "string option"
  | UNKNOWN string

definition get_status :: "sms_service \<Rightarrow> world \<Rightarrow> (error + status_info) \<times> world" where
  "get_status s w =
     (case activation_id s of
        None \<Rightarrow> (Inl NoActivationIdYet, w)
      | Some i \<Rightarrow>
          if i = 0 then (Inl NoActivationIdYet, w)
          else case api_request (GetStatus i) w of
                 (Inl e, w1) \<Rightarrow> (Inl e, w1)
               | (Inr response, w1) \<Rightarrow>
                   if response = ''BAD_KEY'' then (Inl BadKey, w1)
                   else if response = ''NO_ACTIVATION'' then (Inl NoActivation, w1)
                   else if response = ''BAD_ACTION'' then (Inl BadAction, w1)
                   else if response = ''SERVICE_UNAVAILABLE_REGION'' then (Inl RegionUnavailable, w1)
                   else if response = ''STATUS_WAIT_CODE'' then (Inr WAIT_CODE, w1)
                   else if startswith response ''STATUS_WAIT_RETRY'' then
                     (Inr (WAIT_RETRY (second_part response)), w1)
                   else if response = ''STATUS_WAIT_RESEND'' then (Inr WAIT_RESEND, w1)
                   else if response = ''STATUS_CANCEL'' then (Inr CANCEL, w1)
                   else if startswith response ''STATUS_OK'' then
                     (Inr (OK (second_part response)), w1)
                   else (Inr (UNKNOWN response), w1))"

definition set_ready :: "sms_service \<Rightarrow> world \<Rightarrow> (error + string) \<times> world" where
  "set_ready s w = set_status STATUS_READY s w"

definition resend_sms :: "sms_service \<Rightarrow> world \<Rightarrow> (error + string) \<times> world" where
  "resend_sms s w = set_status STATUS_RESEND s w"

text \<open>\<open>set_complete\<close> and \<open>cancel\<close> catch every exception and return \<open>None\<close> then.\<close>

definition set_complete :: "sms_service \<Rightarrow> world \<Rightarrow> string option \<times> world" where
  "set_complete s w =
     (case set_status STATUS_COMPLETE s w of
        (Inl e, w1) \<Rightarrow> (None, w1)
      | (Inr response, w1) \<Rightarrow> (Some response, w1))"

definition cancel :: "sms_service \<Rightarrow> world \<Rightarrow> string option \<times> world" where
  "cancel s w =
     (case set_status STATUS_CANCEL s w of
        (Inl e, w1) \<Rightarrow> (None, w1)
      | (Inr response, w1) \<Rightarrow> (Some response, w1))"

definition close :: "sms_service \<Rightarrow> world \<Rightarrow> sms_service \<times> world" where
  "close s w =
     (let w1 = (if truthy_id (activation_id s) then snd (cancel s w) else w)
      in (s\<lparr>activation_id := None, phone_number := None, service := None, country := None\<rparr>, w1))"

text \<open>
  One round of the polling loop of \<open>wait_for_verification_code\<close>, up to the pause: the
  code is there, the round is to be repeated after the pause, or the call fails.
  \<open>on_error\<close> is the handler of the loop: an exception that mentions a timeout is
  answered by another round.
\<close>

datatype round = Got string | Again | Fail error

definition on_error :: "error \<Rightarrow> round" where
  "on_error e = (if has_timeout e then Again else Fail e)"

definition poll_round :: "sms_service \<Rightarrow> world \<Rightarrow> round \<times> world" where
  "poll_round s w =
     (case get_status s w of
        (Inl e, w1) \<Rightarrow> (on_error e, w1)
      | (Inr info, w1) \<Rightarrow>
          (case info of
             OK (Some code) \<Rightarrow> if code \<noteq> [] then (Got code, w1) else (Again, w1)
           | WAIT_RESEND \<Rightarrow> (Again, snd (set_status STATUS_RESEND s w1))
           | CANCEL \<Rightarrow> (on_error Cancelled, w1)
           | _ \<Rightarrow> (Again, w1)))"

section \<open>Time taken by the SMS client\<close>

lemma http_get_later: "now w < now (snd (http_get req w))"
  by (simp add: http_get_def split: prod.splits)

lemma api_attempts_later: "now w \<le> now (snd (api_attempts req retries k w))"
proof (induction k arbitrary: w)
  case 0
  then show ?case by simp
next
  case (Suc k)
  obtain out w1 where h: "http_get req w = (out, w1)" by (cases "http_get req w")
  have a: "now w < now w1" using http_get_later [of w req] h by simp
  have b: "now (sleep (ms) w1) \<le> now (snd (api_attempts req retries k (sleep ms w1)))" for ms
    by (rule Suc.IH)
  have c: "now w1 \<le> now (sleep ms w1)" for ms by (simp add: sleep_def)
  show ?case
    using a b [of "(retries - k) * 1000"] c [of "(retries - k) * 1000"] h
    by (auto simp: Let_def split: http_outcome.splits sum.splits)
qed

lemma api_attempts_Suc_later: "now w < now (snd (api_attempts req retries (Suc k) w))"
proof -
  obtain out w1 where h: "http_get req w = (out, w1)" by (cases "http_get req w")
  have a: "now w < now w1" using http_get_later [of w req] h by simp
  let ?w2 = "sleep ((retries - k) * 1000) w1"
  have b: "now ?w2 \<le> now (snd (api_attempts req retries k ?w2))"
    by (rule api_attempts_later)
  have c: "now w1 \<le> now ?w2" by (simp add: sleep_def)
  from a b c have d: "now w < now (snd (api_attempts req retries k ?w2))" by linarith
  show ?thesis
    using a d h by (simp add: Let_def split: http_outcome.splits sum.splits)
qed

lemma api_request_later: "now w < now (snd (api_request req w))"
  unfolding api_request_def numeral_3_eq_3 by (rule api_attempts_Suc_later)

lemma api_request_later': "api_request req w = (r, w1) \<Longrightarrow> now w < now w1"
  using api_request_later [of w req] by simp

lemma set_status_later: "now w \<le> now (snd (set_status status s w))"
proof (cases "activation_id s")
  case None
  then show ?thesis by (simp add: set_status_def)
next
  case (Some i)
  obtain r w1 where a: "api_request (SetStatus status i) w = (r, w1)"
    by (cases "api_request (SetStatus status i) w")
  have "now w < now w1" using a by (rule api_request_later')
  then show ?thesis
    using Some a by (cases r) (simp_all add: set_status_def)
qed

lemma get_status_later:
  assumes "get_status s w = (r, w1)" and "r \<noteq> Inl NoActivationIdYet"
  shows "now w < now w1"
proof (cases "activation_id s")
  case None
  then show ?thesis using assms by (simp add: get_status_def)
next
  case (Some i)
  obtain q w0 where a: "api_request (GetStatus i) w = (q, w0)"
    by (cases "api_request (GetStatus i) w")
  have l: "now w < now w0" using a by (rule api_request_later')
  have "i \<noteq> 0" using assms Some by (cases "i = 0") (auto simp: get_status_def)
  then have "w1 = w0"
    using assms(1) Some a by (cases q) (auto simp: get_status_def split: if_splits)
  then show ?thesis using l by simp
qed

lemma poll_round_Again_later:
  assumes "poll_round s w = (Again, w1)"
  shows "now w < now w1"
proof -
  obtain r w0 where g: "get_status s w = (r, w0)" by (cases "get_status s w")
  have ne: "r \<noteq> Inl NoActivationIdYet"
    using assms g by (auto simp: poll_round_def on_error_def)
  have a: "now w < now w0" using get_status_later [OF g ne] .
  have b: "now w0 \<le> now (snd (set_status STATUS_RESEND s w0))" by (rule set_status_later)
  have "w1 = w0 \<or> w1 = snd (set_status STATUS_RESEND s w0)"
    using assms g
    by (auto simp: poll_round_def on_error_def
        split: sum.splits status_info.splits option.splits if_splits)
  then show ?thesis using a b by auto
qed

section \<open>GrizzlySMSService: waiting for the code\<close>

text \<open>
  The loop \<open>while (time - start_time) < timeout\<close>: the condition is looked at only
  before a round; a round that is to be repeated ends with the pause of
  \<open>poll_interval\<close>.
\<close>

function wait_loop :: "nat \<Rightarrow> nat \<Rightarrow> nat \<Rightarrow> sms_service \<Rightarrow> world \<Rightarrow> (error + string) \<times> world" where
  "wait_loop start timeout poll_interval s w =
     (if now w - start < timeout then
        (case poll_round s w of
           (Got code, w1) \<Rightarrow> (Inr code, w1)
         | (Fail e, w1) \<Rightarrow> (Inl e, w1)
         | (Again, w1) \<Rightarrow> wait_loop start timeout poll_interval s (sleep poll_interval w1))
      else (Inl (WaitTimeout timeout), w))"
  by pat_completeness auto
termination
  apply (relation "measure (\<lambda>(start, timeout, poll_interval, s, w). start + timeout - now w)")
   apply simp
  apply (simp add: sleep_def)
  subgoal for start timeout poll_interval s w x y
    using poll_round_Again_later [of s w y] by simp
  done

declare wait_loop.simps [simp del]

definition wait_for_verification_code ::
  "nat \<Rightarrow> nat \<Rightarrow> sms_service \<Rightarrow> world \<Rightarrow> (error + string) \<times> world" where
  "wait_for_verification_code timeout poll_interval s w =
     (if \<not> truthy_id (activation_id s) then (Inl NoActivationIdYet, w\<lparr>waits := Suc (waits w)\<rparr>)
      else wait_loop (now w) timeout poll_interval s (w\<lparr>waits := Suc (waits w)\<rparr>))"

section \<open>The bound on the wait\<close>

text \<open>Every HTTP attempt the provider will ever answer takes at most \<open>L\<close> milliseconds.\<close>

definition latency_bound :: "nat \<Rightarrow> world \<Rightarrow> bool" where
  "latency_bound L w =
     (list_all (\<lambda>(d, out). Suc d \<le> L) (replies w) \<and> Suc (fst (fallback w)) \<le> L)"

text \<open>The pauses of \<open>_api_request\<close> between \<open>k\<close> attempts, the last of them attempt \<open>retries\<close>.\<close>

fun backoff :: "nat \<Rightarrow> nat \<Rightarrow> nat" where
  "backoff retries 0 = 0"
| "backoff retries (Suc k) = (if k = 0 then 0 else (retries - k) * 1000 + backoff retries k)"

lemma latency_bound_sleep: "latency_bound L (sleep ms w) = latency_bound L w"
  by (simp add: latency_bound_def sleep_def)

lemma latency_bound_waits: "latency_bound L (w\<lparr>waits := n\<rparr>) = latency_bound L w"
  by (simp add: latency_bound_def)

lemma http_get_bound:
  assumes "latency_bound L w" and "http_get req w = (out, w1)"
  shows "now w1 \<le> now w + L \<and> latency_bound L w1"
proof (cases "replies w")
  case Nil
  then show ?thesis
    using assms by (auto simp: http_get_def latency_bound_def split: prod.splits)
next
  case (Cons x xs)
  then show ?thesis
    using assms by (auto simp: http_get_def latency_bound_def split: prod.splits)
qed

lemma api_attempts_bound:
  "latency_bound L w \<Longrightarrow>
     now (snd (api_attempts req retries k w)) \<le> now w + k * L + backoff retries k
     \<and> latency_bound L (snd (api_attempts req retries k w))"
proof (induction k arbitrary: w)
  case 0
  then show ?case by simp
next
  case (Suc k)
  obtain out w1 where h: "http_get req w = (out, w1)" by (cases "http_get req w")
  have a: "now w1 \<le> now w + L" and b: "latency_bound L w1"
    using http_get_bound [OF Suc.prems h] by simp_all
  let ?w2 = "sleep ((retries - k) * 1000) w1"
  have c: "latency_bound L ?w2" using b by (simp add: latency_bound_sleep)
  have d: "now (snd (api_attempts req retries k ?w2)) \<le> now ?w2 + k * L + backoff retries k
     \<and> latency_bound L (snd (api_attempts req retries k ?w2))"
    using c by (rule Suc.IH)
  have e: "now ?w2 = now w1 + (retries - k) * 1000" by (simp add: sleep_def)
  have f: "snd (api_attempts req retries (Suc k) w) = w1
           \<or> (k \<noteq> 0 \<and> snd (api_attempts req retries (Suc k) w) = snd (api_attempts req retries k ?w2))"
    using h by (auto simp: Let_def split: http_outcome.splits sum.splits)
  show ?case
  proof (rule disjE [OF f])
    assume "snd (api_attempts req retries (Suc k) w) = w1"
    then show ?thesis using a b by simp
  next
    assume g: "k \<noteq> 0 \<and> snd (api_attempts req retries (Suc k) w) = snd (api_attempts req retries k ?w2)"
    then have "backoff retries (Suc k) = (retries - k) * 1000 + backoff retries k" by simp
    then show ?thesis using g a d e by (simp del: backoff.simps api_attempts.simps)
  qed
qed

lemma api_request_bound:
  assumes "latency_bound L w"
  shows "now (snd (api_request req w)) \<le> now w + 3 * L + 3000
         \<and> latency_bound L (snd (api_request req w))"
proof -
  have "backoff 3 3 = 3000" by (simp add: numeral_3_eq_3)
  then show ?thesis
    using api_attempts_bound [OF assms, of req 3 3] by (simp add: api_request_def)
qed

lemma set_status_bound:
  assumes "latency_bound L w"
  shows "now (snd (set_status status s w)) \<le> now w + 3 * L + 3000
         \<and> latency_bound L (snd (set_status status s w))"
proof (cases "activation_id s")
  case None
  then show ?thesis using assms by (simp add: set_status_def)
next
  case (Some i)
  obtain r w1 where a: "api_request (SetStatus status i) w = (r, w1)"
    by (cases "api_request (SetStatus status i) w")
  have b: "now w1 \<le> now w + 3 * L + 3000 \<and> latency_bound L w1"
    using api_request_bound [OF assms, of "SetStatus status i"] a by simp
  have "snd (set_status status s w) = w \<or> snd (set_status status s w) = w1"
    using Some a by (cases r) (simp_all add: set_status_def)
  then show ?thesis using b assms by auto
qed

lemma get_status_bound:
  assumes "latency_bound L w"
  shows "now (snd (get_status s w)) \<le> now w + 3 * L + 3000
         \<and> latency_bound L (snd (get_status s w))"
proof (cases "activation_id s")
  case None
  then show ?thesis using assms by (simp add: get_status_def)
next
  case (Some i)
  obtain r w1 where a: "api_request (GetStatus i) w = (r, w1)"
    by (cases "api_request (GetStatus i) w")
  have b: "now w1 \<le> now w + 3 * L + 3000 \<and> latency_bound L w1"
    using api_request_bound [OF assms, of "GetStatus i"] a by simp
  have "snd (get_status s w) = w \<or> snd (get_status s w) = w1"
    using Some a by (cases r) (simp_all add: get_status_def)
  then show ?thesis using b assms by auto
qed

lemma poll_round_bound:
  assumes "latency_bound L w"
  shows "now (snd (poll_round s w)) \<le> now w + 6 * L + 6000
         \<and> latency_bound L (snd (poll_round s w))"
proof -
  obtain r w1 where g: "get_status s w = (r, w1)" by (cases "get_status s w")
  have a: "now w1 \<le> now w + 3 * L + 3000" and b: "latency_bound L w1"
    using get_status_bound [OF assms, of s] g by simp_all
  let ?w2 = "snd (set_status STATUS_RESEND s w1)"
  have c: "now ?w2 \<le> now w1 + 3 * L + 3000 \<and> latency_bound L ?w2"
    using b by (rule set_status_bound)
  have "snd (poll_round s w) = w1 \<or> snd (poll_round s w) = ?w2"
    using g by (auto simp: poll_round_def split: sum.splits status_info.splits option.splits)
  then show ?thesis using a b c by auto
qed

lemma wait_loop_bound:
  "latency_bound L w \<Longrightarrow> now w \<le> start + timeout + poll_interval + 6 * L + 6000 \<Longrightarrow>
     now (snd (wait_loop start timeout poll_interval s w))
       \<le> start + timeout + poll_interval + 6 * L + 6000"
proof (induction start timeout poll_interval s w rule: wait_loop.induct)
  case (1 start timeout poll_interval s w)
  show ?case
  proof (cases "now w - start < timeout")
    case False
    then show ?thesis using "1.prems" by (simp add: wait_loop.simps)
  next
    case True
    obtain r w1 where p: "poll_round s w = (r, w1)" by (cases "poll_round s w")
    have a: "now w1 \<le> now w + 6 * L + 6000" and b: "latency_bound L w1"
      using poll_round_bound [OF "1.prems"(1), of s] p by simp_all
    have c: "now w1 \<le> start + timeout + poll_interval + 6 * L + 6000"
      using a True by linarith
    show ?thesis
    proof (cases r)
      case (Got code)
      then show ?thesis using True p c by (simp add: wait_loop.simps)
    next
      case (Fail e)
      then show ?thesis using True p c by (simp add: wait_loop.simps)
    next
      case Again
      let ?w2 = "sleep poll_interval w1"
      have d: "latency_bound L ?w2" using b by (simp add: latency_bound_sleep)
      have e: "now ?w2 \<le> start + timeout + poll_interval + 6 * L + 6000"
        using a True by (simp add: sleep_def)
      have "now (snd (wait_loop start timeout poll_interval s ?w2))
              \<le> start + timeout + poll_interval + 6 * L + 6000"
        using "1.IH" [OF True p [symmetric] Again d e] .
      then show ?thesis using True p Again by (simp add: wait_loop.simps)
    qed
  qed
qed

text \<open>
  C6 (as amended).  \<open>wait_for_verification_code\<close> returns a code or fails, and when
  every HTTP attempt of the client takes at most \<open>L\<close> milliseconds it does so within
  \<open>timeout + poll_interval + 6 * L + 6000\<close> milliseconds: the last round starts before
  the timeout, makes at most two requests of three attempts each with pauses of one and
  two seconds between the attempts, and ends with one pause of \<open>poll_interval\<close>.
\<close>

theorem wait_for_verification_code_bounded:
  "latency_bound L w \<Longrightarrow>
     now (snd (wait_for_verification_code timeout poll_interval s w))
       \<le> now w + timeout + poll_interval + 6 * L + 6000"
proof -
  assume a: "latency_bound L w"
  let ?w = "w\<lparr>waits := Suc (waits w)\<rparr>"
  have b: "latency_bound L ?w" using a by (simp add: latency_bound_waits)
  have c: "now ?w = now w" by simp
  have "now (snd (wait_loop (now w) timeout poll_interval s ?w))
        \<le> now w + timeout + poll_interval + 6 * L + 6000"
    using wait_loop_bound [OF b, of "now w" timeout poll_interval s] c by simp
  then show ?thesis by (simp add: wait_for_verification_code_def)
qed

text \<open>
  A provider that answers every status request after 29 seconds, within the client's
  limit of 30 seconds for a request, with \<open>STATUS_WAIT_CODE\<close>; and a service that holds
  activation 7.
\<close>

definition slow_provider :: world where
  "slow_provider =
     \<lparr>now = 0, replies = [], fallback = (28999, Response True ''200'' ''STATUS_WAIT_CODE''),
      sent = [], waits = 0, saved = [], decode_number = (\<lambda>r. None), is_float = (\<lambda>p. True)\<rparr>"

definition leased_service :: sms_service where
  "leased_service =
     \<lparr>api_key = ''key'', service = Some ''dr'', country = Some ''151'', max_price = Some (1 / 40),
      activation_id = Some 7, phone_number = Some ''79001112233''\<rparr>"

lemma slow_wait:
  "wait_for_verification_code 60000 3000 leased_service slow_provider
     = (Inl (WaitTimeout 60000),
        slow_provider\<lparr>now := 64000, sent := [GetStatus 7, GetStatus 7], waits := 1\<rparr>)"
  by (simp add: wait_for_verification_code_def wait_loop.simps poll_round_def get_status_def
      api_request_def numeral_3_eq_3 http_get_def leased_service_def slow_provider_def
      truthy_id_def sleep_def startswith_def)

theorem wait_for_verification_code_bounded_witness:
  "latency_bound 29000 slow_provider
   \<and> now (snd (wait_for_verification_code 60000 3000 leased_service slow_provider)) = 64000
   \<and> now (snd (wait_for_verification_code 60000 3000 leased_service slow_provider))
       \<le> now slow_provider + 60000 + 3000 + 6 * 29000 + 6000"
proof -
  have a: "latency_bound 29000 slow_provider"
    by (simp add: latency_bound_def slow_provider_def)
  show ?thesis
    using a wait_for_verification_code_bounded [OF a, of 60000 3000 leased_service] slow_wait
    by simp
qed

text \<open>
  C6 as stated fails: with a timeout of 60000 ms and a poll interval of 3000 ms the call
  above ends after 64000 ms, later than 63000 ms.
\<close>

theorem wait_for_verification_code_counterexample:
  "\<not> (now (snd (wait_for_verification_code 60000 3000 leased_service slow_provider))
        - now slow_provider \<le> 60000 + 3000)"
  using slow_wait by (simp add: slow_provider_def)


section \<open>OpenAIRegister: phone verification (register\_service.py)\<close>

text \<open>
  What the browser page of one task answers to the driver: whether the page settles
  (\<open>wait_for_load_state\<close>), the session cookie and the access token exchanged for it,
  the error of the start and of the finish request (\<open>None\<close> when the request is
  accepted), whether the reload of the retry path returns, the access token seen on the
  session endpoint after the final reload and the number of half-second pauses before it
  is seen, and the session cookie read at the end.
\<close>

record page =
  load_state_ok :: bool
  session_token :: "string option"
  access_token :: "string option"
  start_error :: "string option"
  reload_ok :: bool
  finish_error :: "string option"
  session_reply :: "(nat \<times> string) option"
  final_session_token :: "string option"

text \<open>
  Attribute access on the SMS service object.  An instance of \<open>GrizzlySMSService\<close> has
  the attributes set by \<open>__init__\<close> and the methods of the class; any other name
  raises \<open>AttributeError\<close>.
\<close>

definition GrizzlySMSService_names :: "string list" where
  "GrizzlySMSService_names =
     [''api_key'', ''service'', ''country'', ''max_price'', ''activation_id'', ''phone_number'',
      ''init'', ''_api_request'', ''get_balance'', ''get_number'', ''set_status'', ''get_status'',
      ''set_ready'', ''resend_sms'', ''set_complete'', ''cancel'', ''wait_for_verification_code'',
      ''get_phone_number'', ''get_activation_id'', ''close'']"

definition getattr :: "string \<Rightarrow> error + string" where
  "getattr name =
     (if name \<in> set GrizzlySMSService_names then Inr name else Inl (AttributeError name))"

text \<open>
  A call \<open>sms_service.name(max_price=...)\<close> of the driver.  The attribute is looked up
  first.  The one method of the class that takes this argument is \<open>get_number\<close>;
  calling another attribute with it is a \<open>TypeError\<close>, here \<open>ValueError\<close> with the name.
\<close>

definition call_with_max_price ::
  "string \<Rightarrow> rat option \<Rightarrow> sms_service \<Rightarrow> world \<Rightarrow> (error + string) \<times> sms_service \<times> world" where
  "call_with_max_price name max_price_arg s w =
     (case getattr name of
        Inl e \<Rightarrow> (Inl e, s, w)
      | Inr found \<Rightarrow>
          if found = ''get_number'' then get_number max_price_arg s w
          else (Inl (ValueError found), s, w))"

text \<open>
  Step 2 of \<open>_handle_phone_verification\<close>: the number of the service is used again after
  a resend request, or a number is requested by \<open>sms_service.getNumber()\<close>, once more by
  \<open>sms_service.getNumber(max_price=None)\<close> when the error mentions a price that is too
  low, and announced as ready.
\<close>

definition acquire_phone ::
  "bool \<Rightarrow> sms_service \<Rightarrow> world \<Rightarrow> (error + string) \<times> sms_service \<times> world" where
  "acquire_phone reuse_phone s w =
     (if reuse_phone then
        (case phone_number s of
           None \<Rightarrow> (Inl ReuseWithoutPhone, s, w)
         | Some phone \<Rightarrow>
             if phone = [] then (Inl ReuseWithoutPhone, s, w)
             else case resend_sms s w of
                    (Inl e, w1) \<Rightarrow> (Inl e, s, w1)
                  | (Inr response, w1) \<Rightarrow> (Inr phone, s, sleep 3000 w1))
      else
        (case (case call_with_max_price ''getNumber'' None s w of
                 (Inl e, s1, w1) \<Rightarrow>
                   if has_price_too_low e then call_with_max_price ''getNumber'' None s1 w1
                   else (Inl e, s1, w1)
               | (Inr phone, s1, w1) \<Rightarrow> (Inr phone, s1, w1)) of
           (Inl e, s1, w1) \<Rightarrow> (Inl e, s1, w1)
         | (Inr phone, s1, w1) \<Rightarrow>
             (case set_ready s1 w1 of
                (Inl e, w2) \<Rightarrow> (Inl e, s1, w2)
              | (Inr response, w2) \<Rightarrow> (Inr phone, s1, w2))))"

definition max_retries :: nat where "max_retries = 3"

text \<open>
  Step 6, the loop \<open>while not verification_code and retry_count < max_retries\<close>, with
  \<open>k\<close> the number of retries left after the running wait.  A wait that ends with an
  error mentioning a timeout counts as a retry; while retries are left the number is
  cancelled, a new one is requested by \<open>sms_service.getNumber(max_price=None)\<close> and
  announced, the page is reloaded and the start request is issued again.
\<close>

fun code_attempts ::
  "page \<Rightarrow> nat \<Rightarrow> string \<Rightarrow> sms_service \<Rightarrow> world
     \<Rightarrow> (error + string \<times> string) \<times> sms_service \<times> world" where
  "code_attempts pg 0 phone s w = (Inl NoVerificationCode, s, w)"
| "code_attempts pg (Suc k) phone s w =
     (case wait_for_verification_code 60000 3000 s w of
        (Inr code, w1) \<Rightarrow> (Inr (code, phone), s, w1)
      | (Inl e, w1) \<Rightarrow>
          if has_timeout e then
            (if k \<noteq> 0 then
               (let w2 = snd (cancel s w1)
                in case call_with_max_price ''getNumber'' None s w2 of
                     (Inl e2, s2, w3) \<Rightarrow> (Inl e2, s2, w3)
                   | (Inr phone2, s2, w3) \<Rightarrow>
                       (case set_ready s2 w3 of
                          (Inl e3, w4) \<Rightarrow> (Inl e3, s2, w4)
                        | (Inr response, w4) \<Rightarrow>
                            if \<not> reload_ok pg then (Inl ReloadTimeout, s2, w4)
                            else if start_error pg \<noteq> None then (Inl RestartFailed, s2, sleep 2000 w4)
                            else code_attempts pg k phone2 s2 (sleep 2000 w4)))
             else (Inl RetriesExceeded, s, w1))
          else (Inl e, s, w1))"

text \<open>
  Steps 9 to 12: the token seen on the session endpoint within thirty pauses of half a
  second is preferred to the token obtained before the start request.
\<close>

definition latest_token :: "page \<Rightarrow> string option" where
  "latest_token pg =
     (case session_reply pg of
        None \<Rightarrow> None
      | Some (n, token) \<Rightarrow> if n \<le> 30 \<and> token \<noteq> [] then Some token else None)"

definition session_wait :: "page \<Rightarrow> nat" where
  "session_wait pg =
     (case session_reply pg of
        None \<Rightarrow> 15000
      | Some (n, token) \<Rightarrow> if n \<le> 30 \<and> token \<noteq> [] then n * 500 else 15000)"

text \<open>
  Steps 4 to 12 of \<open>_handle_phone_verification\<close>, with the number in hand: the tokens,
  the start request, the wait for the code, the finish request, the completion of the
  lease when \<open>set_complete\<close> is set, and the tokens of the result.
\<close>

definition verify_with_phone ::
  "page \<Rightarrow> bool \<Rightarrow> string \<Rightarrow> sms_service \<Rightarrow> world
     \<Rightarrow> (error + string \<times> string option) \<times> sms_service \<times> world" where
  "verify_with_phone pg set_complete_flag phone s w =
     (if \<not> truthy_str (session_token pg) then (Inl NoSessionToken, s, w)
      else if \<not> truthy_str (access_token pg) then (Inl NoAccessToken, s, w)
      else case start_error pg of
        Some m \<Rightarrow> (Inl (StartFailed m), s, w)
      | None \<Rightarrow>
         (case code_attempts pg max_retries phone s w of
            (Inl e, s3, w3) \<Rightarrow> (Inl e, s3, w3)
          | (Inr (code, phone3), s3, w3) \<Rightarrow>
              (case finish_error pg of
                 Some m \<Rightarrow> (Inl (FinishFailed m), s3, w3)
               | None \<Rightarrow>
                   (let w4 = (if set_complete_flag then snd (set_complete s3 w3) else w3);
                        w5 = sleep (session_wait pg + 2000) w4;
                        token = (case latest_token pg of
                                   Some t \<Rightarrow> t
                                 | None \<Rightarrow> (case access_token pg of Some t \<Rightarrow> t | None \<Rightarrow> []))
                    in (Inr (token, final_session_token pg), s3, w5)))))"

text \<open>
  \<open>_handle_phone_verification(email, sms_service, reuse_phone, set_complete)\<close>: the
  pause of ten seconds, the settling of the page, \<open>sms_service.init()\<close>, step 2 and the
  steps after it.  The result is the pair of the access token and the session token.
\<close>

definition handle_phone_verification ::
  "page \<Rightarrow> bool \<Rightarrow> bool \<Rightarrow> sms_service \<Rightarrow> world
     \<Rightarrow> (error + string \<times> string option) \<times> sms_service \<times> world" where
  "handle_phone_verification pg reuse_phone set_complete_flag s w =
     (let w1 = sleep 10000 w
      in if \<not> load_state_ok pg then (Inl LoadStateTimeout, s, w1)
         else case sms_init s of
           Inl e \<Rightarrow> (Inl e, s, w1)
         | Inr u \<Rightarrow>
            (case acquire_phone reuse_phone s w1 of
               (Inl e, s2, w2) \<Rightarrow> (Inl e, s2, w2)
             | (Inr phone, s2, w2) \<Rightarrow> verify_with_phone pg set_complete_flag phone s2 w2))"

section \<open>Requests only accumulate\<close>

lemma http_get_sent: "sent (snd (http_get req w)) = sent w @ [req]"
  by (simp add: http_get_def split: prod.splits)

lemma sleep_sent: "sent (sleep ms w) = sent w"
  by (simp add: sleep_def)

lemma api_attempts_sent: "prefix (sent w) (sent (snd (api_attempts req retries k w)))"
proof (induction k arbitrary: w)
  case 0
  then show ?case by simp
next
  case (Suc k)
  obtain out w1 where h: "http_get req w = (out, w1)" by (cases "http_get req w")
  have a: "sent w1 = sent w @ [req]" using http_get_sent [of req w] h by simp
  let ?w2 = "sleep ((retries - k) * 1000) w1"
  have "prefix (sent ?w2) (sent (snd (api_attempts req retries k ?w2)))" by (rule Suc.IH)
  then have b: "prefix (sent w) (sent (snd (api_attempts req retries k ?w2)))"
    using a by (simp add: sleep_sent) (meson append_prefixD)
  have f: "snd (api_attempts req retries (Suc k) w) = w1
           \<or> snd (api_attempts req retries (Suc k) w) = snd (api_attempts req retries k ?w2)"
    using h by (auto simp: Let_def split: http_outcome.splits sum.splits)
  then show ?case using a b by (auto simp del: api_attempts.simps)
qed

lemma api_attempts_Suc_first:
  "prefix (sent w @ [req]) (sent (snd (api_attempts req retries (Suc k) w)))"
proof -
  obtain out w1 where h: "http_get req w = (out, w1)" by (cases "http_get req w")
  have a: "sent w1 = sent w @ [req]" using http_get_sent [of req w] h by simp
  let ?w2 = "sleep ((retries - k) * 1000) w1"
  have "prefix (sent ?w2) (sent (snd (api_attempts req retries k ?w2)))"
    by (rule api_attempts_sent)
  then have b: "prefix (sent w @ [req]) (sent (snd (api_attempts req retries k ?w2)))"
    using a by (simp add: sleep_sent)
  have "snd (api_attempts req retries (Suc k) w) = w1
        \<or> snd (api_attempts req retries (Suc k) w) = snd (api_attempts req retries k ?w2)"
    using h by (auto simp: Let_def split: http_outcome.splits sum.splits)
  then show ?thesis using a b by (auto simp del: api_attempts.simps)
qed

lemma api_request_first:
  "prefix (sent w @ [req]) (sent (snd (api_request req w)))"
  unfolding api_request_def numeral_3_eq_3 by (rule api_attempts_Suc_first)

lemma api_request_sent: "prefix (sent w) (sent (snd (api_request req w)))"
  using api_request_first [of w req] by (meson append_prefixD)

lemma set_status_first:
  assumes "activation_id s = Some i" and "i \<noteq> 0"
  shows "prefix (sent w @ [SetStatus status i]) (sent (snd (set_status status s w)))"
proof -
  obtain r w1 where a: "api_request (SetStatus status i) w = (r, w1)"
    by (cases "api_request (SetStatus status i) w")
  have "snd (set_status status s w) = w1"
    using assms a by (cases r) (simp_all add: set_status_def)
  then show ?thesis using api_request_first [of w "SetStatus status i"] a by simp
qed

lemma set_status_sent: "prefix (sent w) (sent (snd (set_status status s w)))"
proof (cases "activation_id s")
  case None
  then show ?thesis by (simp add: set_status_def)
next
  case (Some i)
  obtain r w1 where a: "api_request (SetStatus status i) w = (r, w1)"
    by (cases "api_request (SetStatus status i) w")
  have "snd (set_status status s w) = w \<or> snd (set_status status s w) = w1"
    using Some a by (cases r) (simp_all add: set_status_def)
  then show ?thesis using api_request_sent [of w "SetStatus status i"] a by auto
qed

lemma get_status_sent: "prefix (sent w) (sent (snd (get_status s w)))"
proof (cases "activation_id s")
  case None
  then show ?thesis by (simp add: get_status_def)
next
  case (Some i)
  obtain r w1 where a: "api_request (GetStatus i) w = (r, w1)"
    by (cases "api_request (GetStatus i) w")
  have "snd (get_status s w) = w \<or> snd (get_status s w) = w1"
    using Some a by (cases r) (simp_all add: get_status_def)
  then show ?thesis using api_request_sent [of w "GetStatus i"] a by auto
qed

lemma poll_round_sent: "prefix (sent w) (sent (snd (poll_round s w)))"
proof -
  obtain r w1 where g: "get_status s w = (r, w1)" by (cases "get_status s w")
  have a: "prefix (sent w) (sent w1)" using get_status_sent [of w s] g by simp
  let ?w2 = "snd (set_status STATUS_RESEND s w1)"
  have b: "prefix (sent w1) (sent ?w2)" by (rule set_status_sent)
  have "snd (poll_round s w) = w1 \<or> snd (poll_round s w) = ?w2"
    using g by (auto simp: poll_round_def split: sum.splits status_info.splits option.splits)
  then show ?thesis using a b by (auto intro: prefix_order.trans)
qed

lemma wait_loop_sent:
  "prefix (sent w) (sent (snd (wait_loop start timeout poll_interval s w)))"
proof (induction start timeout poll_interval s w rule: wait_loop.induct)
  case (1 start timeout poll_interval s w)
  show ?case
  proof (cases "now w - start < timeout")
    case False
    then show ?thesis by (simp add: wait_loop.simps)
  next
    case True
    obtain r w1 where p: "poll_round s w = (r, w1)" by (cases "poll_round s w")
    have a: "prefix (sent w) (sent w1)" using poll_round_sent [of w s] p by simp
    show ?thesis
    proof (cases r)
      case (Got code)
      then show ?thesis using True p a by (simp add: wait_loop.simps)
    next
      case (Fail e)
      then show ?thesis using True p a by (simp add: wait_loop.simps)
    next
      case Again
      let ?w2 = "sleep poll_interval w1"
      have "prefix (sent ?w2) (sent (snd (wait_loop start timeout poll_interval s ?w2)))"
        using "1.IH" [OF True p [symmetric] Again] .
      then have "prefix (sent w) (sent (snd (wait_loop start timeout poll_interval s ?w2)))"
        using a by (auto simp: sleep_sent intro: prefix_order.trans)
      then show ?thesis using True p Again by (simp add: wait_loop.simps)
    qed
  qed
qed

lemma wait_for_verification_code_sent:
  "prefix (sent w) (sent (snd (wait_for_verification_code timeout poll_interval s w)))"
  using wait_loop_sent [of "w\<lparr>waits := Suc (waits w)\<rparr>" "now w" timeout poll_interval s]
  by (simp add: wait_for_verification_code_def)

lemma cancel_world: "snd (cancel s w) = snd (set_status STATUS_CANCEL s w)"
  by (simp add: cancel_def split: prod.splits sum.splits)

lemma set_complete_world: "snd (set_complete s w) = snd (set_status STATUS_COMPLETE s w)"
  by (simp add: set_complete_def split: prod.splits sum.splits)

lemma cancel_sent: "prefix (sent w) (sent (snd (cancel s w)))"
  unfolding cancel_world by (rule set_status_sent)

lemma set_complete_sent: "prefix (sent w) (sent (snd (set_complete s w)))"
  unfolding set_complete_world by (rule set_status_sent)

section \<open>Properties of phone verification\<close>

lemma getattr_getNumber: "getattr ''getNumber'' = Inl (AttributeError ''getNumber'')"
  by (simp add: getattr_def GrizzlySMSService_names_def)

lemma call_getNumber:
  "call_with_max_price ''getNumber'' a s w = (Inl (AttributeError ''getNumber''), s, w)"
  by (simp add: call_with_max_price_def getattr_getNumber)

lemma code_attempts_Suc:
  "code_attempts pg (Suc k) phone s w =
     (case wait_for_verification_code 60000 3000 s w of
        (Inr code, w1) \<Rightarrow> (Inr (code, phone), s, w1)
      | (Inl e, w1) \<Rightarrow>
          if has_timeout e then
            (if k \<noteq> 0 then (Inl (AttributeError ''getNumber''), s, snd (cancel s w1))
             else (Inl RetriesExceeded, s, w1))
          else (Inl e, s, w1))"
  by (auto simp: call_getNumber Let_def split: prod.splits sum.splits)

lemma code_attempts_sent:
  "prefix (sent w) (sent (snd (snd (code_attempts pg k phone s w))))"
proof (cases k)
  case 0
  then show ?thesis by simp
next
  case (Suc j)
  obtain r w1 where a: "wait_for_verification_code 60000 3000 s w = (r, w1)"
    by (cases "wait_for_verification_code 60000 3000 s w")
  have b: "prefix (sent w) (sent w1)"
    using wait_for_verification_code_sent [of w 60000 3000 s] a by simp
  have c: "prefix (sent w1) (sent (snd (cancel s w1)))" by (rule cancel_sent)
  have "snd (snd (code_attempts pg k phone s w)) = w1
        \<or> snd (snd (code_attempts pg k phone s w)) = snd (cancel s w1)"
    unfolding Suc code_attempts_Suc using a by (cases r) auto
  then show ?thesis using b c by (auto intro: prefix_order.trans)
qed

lemma verify_with_phone_sent:
  "prefix (sent w) (sent (snd (snd (verify_with_phone pg flag phone s w))))"
proof -
  obtain r s3 w3 where c: "code_attempts pg max_retries phone s w = (r, s3, w3)"
    by (cases "code_attempts pg max_retries phone s w")
  have a: "prefix (sent w) (sent w3)"
    using code_attempts_sent [of w pg max_retries phone s] c by simp
  have b: "prefix (sent w3) (sent (snd (set_complete s3 w3)))" by (rule set_complete_sent)
  let ?wa = "sleep (session_wait pg + 2000) (snd (set_complete s3 w3))"
  let ?wb = "sleep (session_wait pg + 2000) w3"
  let ?wf = "snd (snd (verify_with_phone pg flag phone s w))"
  have "?wf = w \<or> ?wf = w3 \<or> ?wf = ?wa \<or> ?wf = ?wb"
    using c by (cases r) (auto simp: verify_with_phone_def Let_def split: option.splits)
  then show ?thesis
    using a b by (auto simp: sleep_sent intro: prefix_order.trans)
qed

lemma acquire_new_fails:
  "acquire_phone False s w = (Inl (AttributeError ''getNumber''), s, w)"
  by (simp add: acquire_phone_def call_getNumber)

lemma get_number_first:
  "prefix (sent w @ [GetNumberV2 (service s) (country s)
                       (case a of Some p \<Rightarrow> Some p | None \<Rightarrow> max_price s)])
          (sent (snd (snd (get_number a s w))))"
proof -
  let ?req = "GetNumberV2 (service s) (country s) (case a of Some p \<Rightarrow> Some p | None \<Rightarrow> max_price s)"
  obtain r w1 where h: "api_request ?req w = (r, w1)" by (cases "api_request ?req w")
  have "snd (snd (get_number a s w)) = w1"
    using h by (auto simp: get_number_def Let_def split: sum.splits option.splits)
  then show ?thesis using api_request_first [of w ?req] h by simp
qed

text \<open>
  C3 (what the code does).  A phone verification that is to lease a new number ends with
  \<open>AttributeError\<close> at the call \<open>sms_service.getNumber()\<close>: the class defines
  \<open>get_number\<close> and no \<open>getNumber\<close>.  No request reaches the provider, so no rejection
  of the price is ever seen and nothing is retried.  And \<open>get_number\<close> itself, called
  with \<open>max_price=None\<close>, sends the price ceiling of the instance again.
\<close>

theorem new_number_never_requested:
  "(load_state_ok pg \<and> api_key s \<noteq> [] \<longrightarrow>
      handle_phone_verification pg False flag s w
        = (Inl (AttributeError ''getNumber''), s, sleep 10000 w))
   \<and> prefix (sent w @ [GetNumberV2 (service s) (country s) (max_price s)])
        (sent (snd (snd (get_number None s w))))"
proof -
  have "load_state_ok pg \<and> api_key s \<noteq> [] \<longrightarrow>
      handle_phone_verification pg False flag s w
        = (Inl (AttributeError ''getNumber''), s, sleep 10000 w)"
    by (simp add: handle_phone_verification_def sms_init_def acquire_new_fails Let_def)
  then show ?thesis using get_number_first [of w s None] by simp
qed

text \<open>
  A page on which every browser step succeeds, a service that has not leased a number
  and offers at most 0.025, and a provider that rejects that price and then rents out a
  number.
\<close>

definition good_page :: page where
  "good_page =
     \<lparr>load_state_ok = True, session_token = Some ''session'', access_token = Some ''access'',
      start_error = None, reload_ok = True, finish_error = None,
      session_reply = Some (2, ''fresh-access''), final_session_token = Some ''session''\<rparr>"

definition new_service :: sms_service where
  "new_service =
     \<lparr>api_key = ''key'', service = Some ''dr'', country = Some ''151'', max_price = Some (1 / 40),
      activation_id = None, phone_number = None\<rparr>"

definition pricey_provider :: world where
  "pricey_provider =
     \<lparr>now = 0,
      replies = [(99, Response True ''200'' ''WRONG_MAX_PRICE:0.05''),
                 (99, Response True ''200'' ''{number}'')],
      fallback = (99, Response True ''200'' ''STATUS_OK:123456''),
      sent = [], waits = 0, saved = [],
      decode_number = (\<lambda>r. if r = ''{number}'' then Some (7, ''79001112233'') else None),
      is_float = (\<lambda>p. True)\<rparr>"

theorem new_number_never_requested_witness:
  "load_state_ok good_page \<and> api_key new_service \<noteq> []
   \<and> handle_phone_verification good_page False True new_service pricey_provider
       = (Inl (AttributeError ''getNumber''), new_service, pricey_provider\<lparr>now := 10000\<rparr>)
   \<and> sent (snd (snd (handle_phone_verification good_page False True new_service pricey_provider))) = []"
proof -
  have a: "load_state_ok good_page \<and> api_key new_service \<noteq> []"
    by (simp add: good_page_def new_service_def)
  have b: "sleep 10000 pricey_provider = pricey_provider\<lparr>now := 10000\<rparr>"
    by (simp add: sleep_def pricey_provider_def)
  have c: "sent (pricey_provider\<lparr>now := 10000\<rparr>) = []"
    by (simp add: pricey_provider_def)
  show ?thesis
    using a b c new_number_never_requested [of good_page new_service True pricey_provider]
    by simp
qed

text \<open>
  C5 (as amended).  Reuse fails with the error of a lease that cannot be reused, and
  sends nothing, when the lease has been released by \<open>close\<close>, which forgets the number.
  A service that still holds a number and an activation, whatever status has been
  requested for the lease, starts its reuse with the resend request.
\<close>

theorem reuse_fails_only_without_number:
  "(load_state_ok pg \<and> api_key s \<noteq> [] \<longrightarrow>
      handle_phone_verification pg True flag (fst (close s w)) (snd (close s w))
        = (Inl ReuseWithoutPhone, fst (close s w), sleep 10000 (snd (close s w))))
   \<and> (load_state_ok pg \<and> api_key s \<noteq> [] \<and> phone_number s = Some phone \<and> phone \<noteq> []
        \<and> activation_id s = Some i \<and> i \<noteq> 0 \<longrightarrow>
      (\<exists>rest. drop (length (sent w)) (sent (snd (snd (handle_phone_verification pg True flag s w))))
         = SetStatus STATUS_RESEND i # rest))"
proof -
  have a: "load_state_ok pg \<and> api_key s \<noteq> [] \<longrightarrow>
      handle_phone_verification pg True flag (fst (close s w)) (snd (close s w))
        = (Inl ReuseWithoutPhone, fst (close s w), sleep 10000 (snd (close s w)))"
    by (simp add: handle_phone_verification_def sms_init_def acquire_phone_def close_def Let_def)
  have b: "\<exists>rest. drop (length (sent w)) (sent (snd (snd (handle_phone_verification pg True flag s w))))
         = SetStatus STATUS_RESEND i # rest"
    if h: "load_state_ok pg \<and> api_key s \<noteq> [] \<and> phone_number s = Some phone \<and> phone \<noteq> []
        \<and> activation_id s = Some i \<and> i \<noteq> 0"
  proof -
    let ?w1 = "sleep 10000 w"
    obtain r w2 where rs: "resend_sms s ?w1 = (r, w2)" by (cases "resend_sms s ?w1")
    have "prefix (sent ?w1 @ [SetStatus STATUS_RESEND i]) (sent w2)"
      using set_status_first [of s i ?w1 STATUS_RESEND] h rs by (simp add: resend_sms_def)
    then have p2: "prefix (sent w @ [SetStatus STATUS_RESEND i]) (sent w2)"
      by (simp add: sleep_sent)
    let ?wf = "snd (snd (handle_phone_verification pg True flag s w))"
    have "?wf = w2 \<or> ?wf = snd (snd (verify_with_phone pg flag phone s (sleep 3000 w2)))"
      using h rs
      by (cases r) (simp_all add: handle_phone_verification_def sms_init_def acquire_phone_def Let_def)
    moreover have "prefix (sent (sleep 3000 w2))
        (sent (snd (snd (verify_with_phone pg flag phone s (sleep 3000 w2)))))"
      by (rule verify_with_phone_sent)
    ultimately have "prefix (sent w @ [SetStatus STATUS_RESEND i]) (sent ?wf)"
      using p2 by (auto simp: sleep_sent intro: prefix_order.trans)
    then obtain zs where "sent ?wf = (sent w @ [SetStatus STATUS_RESEND i]) @ zs"
      unfolding prefix_def by blast
    then show ?thesis by simp
  qed
  show ?thesis using a b by blast
qed


text \<open>
  A provider whose next answers are \<open>ACCESS_CANCEL\<close> and then \<open>STATUS_WAIT_CODE\<close> for
  ever, each after a tenth of a second.
\<close>

definition quiet_provider :: world where
  "quiet_provider =
     \<lparr>now = 0, replies = [(99, Response True ''200'' ''ACCESS_CANCEL'')],
      fallback = (99, Response True ''200'' ''STATUS_WAIT_CODE''),
      sent = [], waits = 0, saved = [], decode_number = (\<lambda>r. None), is_float = (\<lambda>p. True)\<rparr>"

lemma close_leased:
  "close leased_service quiet_provider
     = (leased_service\<lparr>activation_id := None, phone_number := None, service := None, country := None\<rparr>,
        quiet_provider\<lparr>now := 100, replies := [], sent := [SetStatus 8 7]\<rparr>)"
  by (simp add: close_def cancel_def set_status_def api_request_def numeral_3_eq_3 http_get_def
      leased_service_def quiet_provider_def truthy_id_def STATUS_CANCEL_def Let_def)

theorem reuse_fails_only_without_number_witness:
  "handle_phone_verification good_page True True
       (fst (close leased_service quiet_provider)) (snd (close leased_service quiet_provider))
     = (Inl ReuseWithoutPhone, fst (close leased_service quiet_provider),
        sleep 10000 (snd (close leased_service quiet_provider)))
   \<and> sent (sleep 10000 (snd (close leased_service quiet_provider))) = [SetStatus 8 7]
   \<and> (\<exists>rest. drop (length (sent quiet_provider))
                 (sent (snd (snd (handle_phone_verification good_page True True leased_service quiet_provider))))
               = SetStatus STATUS_RESEND 7 # rest)"
proof -
  have a: "load_state_ok good_page \<and> api_key leased_service \<noteq> []"
    by (simp add: good_page_def leased_service_def)
  have b: "phone_number leased_service = Some ''79001112233'' \<and> ''79001112233'' \<noteq> []
           \<and> activation_id leased_service = Some 7 \<and> (7::nat) \<noteq> 0"
    by (simp add: leased_service_def)
  have c: "sent (sleep 10000 (snd (close leased_service quiet_provider))) = [SetStatus 8 7]"
    by (simp add: close_leased sleep_def)
  show ?thesis
    using a b c
      reuse_fails_only_without_number
        [of good_page leased_service True quiet_provider "''79001112233''" 7]
    by blast
qed

text \<open>
  C5 as stated fails for a lease that was completed.  The provider confirms the
  completion of activation 7 and answers the next request with \<open>BAD_STATUS\<close>.  The
  service still holds the number, so the reuse sends the resend request (status 3) for
  the completed lease and fails with the provider's answer, not with the error of a
  lease that cannot be reused.
\<close>

definition completing_provider :: world where
  "completing_provider =
     \<lparr>now = 0,
      replies = [(99, Response True ''200'' ''ACCESS_ACTIVATION''),
                 (99, Response True ''200'' ''BAD_STATUS'')],
      fallback = (99, Response True ''200'' ''STATUS_WAIT_CODE''),
      sent = [], waits = 0, saved = [], decode_number = (\<lambda>r. None), is_float = (\<lambda>p. True)\<rparr>"

lemma complete_leased:
  "set_complete leased_service completing_provider
     = (Some ''ACCESS_ACTIVATION'',
        completing_provider\<lparr>now := 100, replies := [(99, Response True ''200'' ''BAD_STATUS'')],
          sent := [SetStatus 6 7]\<rparr>)"
  by (simp add: set_complete_def set_status_def api_request_def numeral_3_eq_3 http_get_def
      leased_service_def completing_provider_def STATUS_COMPLETE_def Let_def)

theorem reuse_of_completed_lease_counterexample:
  "sent (snd (set_complete leased_service completing_provider)) = [SetStatus 6 7]
   \<and> handle_phone_verification good_page True True leased_service
        (snd (set_complete leased_service completing_provider))
      = (Inl BadStatus, leased_service,
         completing_provider\<lparr>now := 10200, replies := [], sent := [SetStatus 6 7, SetStatus 3 7]\<rparr>)
   \<and> fst (handle_phone_verification good_page True True leased_service
        (snd (set_complete leased_service completing_provider))) \<noteq> Inl ReuseWithoutPhone"
proof -
  let ?w = "completing_provider\<lparr>now := 100, replies := [(99, Response True ''200'' ''BAD_STATUS'')],
          sent := [SetStatus 6 7]\<rparr>"
  have a: "snd (set_complete leased_service completing_provider) = ?w"
    by (simp add: complete_leased)
  have b: "sent ?w = [SetStatus 6 7]" by simp
  have c: "handle_phone_verification good_page True True leased_service ?w
      = (Inl BadStatus, leased_service,
         completing_provider\<lparr>now := 10200, replies := [], sent := [SetStatus 6 7, SetStatus 3 7]\<rparr>)"
    by (simp add: handle_phone_verification_def sms_init_def acquire_phone_def
        resend_sms_def set_status_def api_request_def numeral_3_eq_3 http_get_def sleep_def
        leased_service_def completing_provider_def good_page_def STATUS_RESEND_def Let_def)
  show ?thesis unfolding a using b c by simp
qed

text \<open>
  C2 (what the code does).  A phone verification that reuses a number and whose first
  wait for the code ends in a timeout does not get to a second wait: one retry is
  counted, the number is cancelled, and the call \<open>sms_service.getNumber(max_price=None)\<close>
  that is to lease a new number raises \<open>AttributeError\<close>, which ends the verification.
\<close>

theorem first_timeout_ends_verification:
  "load_state_ok pg \<and> api_key s \<noteq> [] \<and> phone_number s = Some phone \<and> phone \<noteq> []
   \<and> truthy_str (session_token pg) \<and> truthy_str (access_token pg) \<and> start_error pg = None
   \<and> resend_sms s (sleep 10000 w) = (Inr r, w1)
   \<and> wait_for_verification_code 60000 3000 s (sleep 3000 w1) = (Inl e, w2) \<and> has_timeout e
   \<longrightarrow> handle_phone_verification pg True flag s w
         = (Inl (AttributeError ''getNumber''), s, snd (cancel s w2))"
  by (simp add: handle_phone_verification_def sms_init_def acquire_phone_def verify_with_phone_def
      max_retries_def numeral_3_eq_3 code_attempts_Suc Let_def del: code_attempts.simps)

text \<open>
  A provider that acknowledges the resend request and then answers every request after
  29 seconds with \<open>STATUS_WAIT_CODE\<close>: the code never arrives.
\<close>

definition silent_provider :: world where
  "silent_provider =
     \<lparr>now = 0, replies = [(99, Response True ''200'' ''ACCESS_RETRY_GET'')],
      fallback = (28999, Response True ''200'' ''STATUS_WAIT_CODE''),
      sent = [], waits = 0, saved = [], decode_number = (\<lambda>r. None), is_float = (\<lambda>p. True)\<rparr>"

lemma silent_resend:
  "resend_sms leased_service (sleep 10000 silent_provider)
     = (Inr ''ACCESS_RETRY_GET'',
        silent_provider\<lparr>now := 10100, replies := [], sent := [SetStatus 3 7]\<rparr>)"
  by (simp add: resend_sms_def set_status_def api_request_def numeral_3_eq_3 http_get_def sleep_def
      leased_service_def silent_provider_def STATUS_RESEND_def Let_def)

lemma silent_wait:
  "wait_for_verification_code 60000 3000 leased_service
       (sleep 3000 (silent_provider\<lparr>now := 10100, replies := [], sent := [SetStatus 3 7]\<rparr>))
     = (Inl (WaitTimeout 60000),
        silent_provider\<lparr>now := 77100, replies := [],
          sent := [SetStatus 3 7, GetStatus 7, GetStatus 7], waits := 1\<rparr>)"
  by (simp add: wait_for_verification_code_def wait_loop.simps poll_round_def get_status_def
      api_request_def numeral_3_eq_3 http_get_def leased_service_def silent_provider_def
      truthy_id_def sleep_def startswith_def)

lemma silent_cancel:
  "cancel leased_service
       (silent_provider\<lparr>now := 77100, replies := [],
          sent := [SetStatus 3 7, GetStatus 7, GetStatus 7], waits := 1\<rparr>)
     = (Some ''STATUS_WAIT_CODE'',
        silent_provider\<lparr>now := 106100, replies := [],
          sent := [SetStatus 3 7, GetStatus 7, GetStatus 7, SetStatus 8 7], waits := 1\<rparr>)"
  by (simp add: cancel_def set_status_def api_request_def numeral_3_eq_3 http_get_def
      leased_service_def silent_provider_def STATUS_CANCEL_def Let_def)

theorem first_timeout_ends_verification_witness:
  "handle_phone_verification good_page True True leased_service silent_provider
     = (Inl (AttributeError ''getNumber''), leased_service,
        silent_provider\<lparr>now := 106100, replies := [],
          sent := [SetStatus 3 7, GetStatus 7, GetStatus 7, SetStatus 8 7], waits := 1\<rparr>)"
proof -
  have a: "load_state_ok good_page \<and> api_key leased_service \<noteq> []
           \<and> phone_number leased_service = Some ''79001112233'' \<and> ''79001112233'' \<noteq> []
           \<and> truthy_str (session_token good_page) \<and> truthy_str (access_token good_page)
           \<and> start_error good_page = None"
    by (simp add: good_page_def leased_service_def truthy_str_def)
  have b: "has_timeout (WaitTimeout 60000)" by simp
  show ?thesis
    using a b silent_resend silent_wait silent_cancel
      first_timeout_ends_verification
        [of good_page leased_service "''79001112233''" silent_provider "''ACCESS_RETRY_GET''"
          "silent_provider\<lparr>now := 10100, replies := [], sent := [SetStatus 3 7]\<rparr>"
          "WaitTimeout 60000"
          "silent_provider\<lparr>now := 77100, replies := [],
             sent := [SetStatus 3 7, GetStatus 7, GetStatus 7], waits := 1\<rparr>" True]
    by simp
qed


section \<open>RegisterFlowService (register\_flow.py)\<close>

text \<open>
  What the collaborators of one registration task do: whether the browser is launched,
  whether the driver is initialised, the replies of the mailbox provider, what
  \<open>register.register\<close> comes to, whether \<open>_handle_sora_onboarding\<close> returns or
  raises, the page during the phone verification, and whether the account store accepts
  the account.  The password drawn by \<open>_generate_password\<close> only goes into
  \<open>register.register\<close> and is left out.
\<close>

datatype register_outcome = RegisterTrue | RegisterFalse | RegisterRaises

record task =
  launch_ok :: bool
  driver_ok :: bool
  mail_provider :: "nat \<Rightarrow> create_reply"
  register_result :: register_outcome
  onboarding_ok :: bool
  task_page :: page
  persist_ok :: bool

text \<open>The instance of \<open>RegisterFlowService\<close> after \<open>__init__\<close> has filled in the defaults.\<close>

record flow_service =
  flow_tempmail_api_key :: string
  flow_sms_api_key :: string
  flow_sms_service :: string
  flow_sms_country :: string
  flow_sms_max_price :: rat

text \<open>The two binding rules, \<open>1:1\<close> and \<open>1:3\<close>, as the strings the code compares with.\<close>

definition rule_1to1 :: string where
  "rule_1to1 = [CHR ''1'', CHR 0xE7, CHR 0xBB, CHR 0x91, CHR ''1'']"

definition rule_1to3 :: string where
  "rule_1to3 = [CHR ''1'', CHR 0xE7, CHR 0xBB, CHR 0x91, CHR ''3'']"

text \<open>\<open>a or b\<close> on an optional string and a string.\<close>

definition str_or :: "string option \<Rightarrow> string \<Rightarrow> string" where
  "str_or a b = (case a of None \<Rightarrow> b | Some x \<Rightarrow> if x = [] then b else x)"

definition temp_mail_init :: "string \<Rightarrow> error + unit" where
  "temp_mail_init key = (if key = [] \<or> key = ''YOUR_API_KEY'' then Inl MailKeyUnset else Inr ())"

definition sora_onboarding :: "task \<Rightarrow> error + unit" where
  "sora_onboarding t = (if onboarding_ok t then Inr () else Inl OnboardingFailed)"

text \<open>
  Modelled from the spec: \<open>token_manager.add_token\<close>, \<open>token_manager.update_token\<close> and
  the database behind them are not among the sources.  \<open>addAccount\<close> fails with
  \<open>AlreadyExists\<close> when the email is already on file, in which case the orchestrator
  falls back to \<open>updateAccount\<close>; the canonical record comes back.  Any other failure of
  the store is \<open>PersistFailed\<close>.
\<close>

definition persist_account :: "task \<Rightarrow> account \<Rightarrow> world \<Rightarrow> (error + account) \<times> world" where
  "persist_account t a w =
     (if \<not> persist_ok t then (Inl PersistFailed, w)
      else if list_ex (\<lambda>b. acc_email b = acc_email a) (saved w)
      then (Inr a, w\<lparr>saved := map (\<lambda>b. if acc_email b = acc_email a then a else b) (saved w)\<rparr>)
      else (Inr a, w\<lparr>saved := saved w @ [a]\<rparr>))"

text \<open>
  Steps 5 and 6 of the first task: the phone verification with a new number, and the
  saving of the account.
\<close>

definition first_account_phone ::
  "string \<Rightarrow> task \<Rightarrow> string \<Rightarrow> sms_service \<Rightarrow> world \<Rightarrow> (error + account) \<times> sms_service \<times> world" where
  "first_account_phone binding_rule t address s w =
     (let set_complete_flag = (binding_rule = rule_1to1)
      in case handle_phone_verification (task_page t) False set_complete_flag s w of
           (Inl e, s1, w1) \<Rightarrow> (Inl e, s1, w1)
         | (Inr (access, session), s1, w1) \<Rightarrow>
             if access = [] then (Inl NoAccessToken, s1, w1)
             else case persist_account t
                         \<lparr>acc_email = address, acc_access_token = access, acc_session_token = session\<rparr> w1 of
                    (Inl e, w2) \<Rightarrow> (Inl e, s1, w2)
                  | (Inr a, w2) \<Rightarrow> (Inr a, s1, w2))"

text \<open>
  Steps 1 to 6 of the first task.  The onboarding stands in a \<open>try\<close> of its own whose
  handler only logs: the task goes on in both cases.
\<close>

definition first_account ::
  "string \<Rightarrow> task \<Rightarrow> sms_service \<Rightarrow> world \<Rightarrow> (error + account) \<times> sms_service \<times> world" where
  "first_account binding_rule t s w =
     (case fst (get_email_address (mail_provider t) 10 fresh_mail) of
        Inl e \<Rightarrow> (Inl (MailError e), s, w)
      | Inr address \<Rightarrow>
          (case register_result t of
             RegisterRaises \<Rightarrow> (Inl RegisterRaised, s, w)
           | RegisterFalse \<Rightarrow> (Inl RegisterFailed, s, w)
           | RegisterTrue \<Rightarrow>
               (case sora_onboarding t of
                  Inl e \<Rightarrow> first_account_phone binding_rule t address s w
                | Inr u \<Rightarrow> first_account_phone binding_rule t address s w)))"

text \<open>
  The body of the \<open>try\<close> in the loop of the \<open>1:3\<close> rule: a new browser, mailbox and
  driver, the registration, the onboarding, the phone verification on the shared
  service with \<open>reuse_phone=True\<close>, and the saving of the account.  Here the onboarding
  stands directly in the body.
\<close>

definition next_account ::
  "task \<Rightarrow> bool \<Rightarrow> sms_service \<Rightarrow> world \<Rightarrow> (error + account) \<times> sms_service \<times> world" where
  "next_account t is_last_account s w =
     (if \<not> launch_ok t then (Inl LaunchFailed, s, w)
      else if \<not> driver_ok t then (Inl DriverInitFailed, s, w)
      else case fst (get_email_address (mail_provider t) 10 fresh_mail) of
        Inl e \<Rightarrow> (Inl (MailError e), s, w)
      | Inr address \<Rightarrow>
          (case register_result t of
             RegisterRaises \<Rightarrow> (Inl RegisterRaised, s, w)
           | RegisterFalse \<Rightarrow> (Inl RegisterFailed, s, w)
           | RegisterTrue \<Rightarrow>
               (case sora_onboarding t of
                  Inl e \<Rightarrow> (Inl e, s, w)
                | Inr u \<Rightarrow>
                    (case handle_phone_verification (task_page t) True is_last_account s w of
                       (Inl e, s1, w1) \<Rightarrow> (Inl e, s1, w1)
                     | (Inr (access, session), s1, w1) \<Rightarrow>
                         if access = [] then (Inl NoAccessToken, s1, w1)
                         else case persist_account t
                                     \<lparr>acc_email = address, acc_access_token = access,
                                        acc_session_token = session\<rparr> w1 of
                                (Inl e, w2) \<Rightarrow> (Inl e, s1, w2)
                              | (Inr a, w2) \<Rightarrow> (Inr a, s1, w2)))))"

text \<open>
  The loop \<open>for i in range(remaining)\<close> with \<open>k\<close> rounds left, so that
  \<open>i = remaining - k\<close> before the decrement.  Round \<open>i\<close> runs task \<open>i + 1\<close>.  The
  handler of the \<open>try\<close> closes the shared service and leaves the loop.
\<close>

fun register_more ::
  "(nat \<Rightarrow> task) \<Rightarrow> nat \<Rightarrow> nat \<Rightarrow> account list \<Rightarrow> sms_service \<Rightarrow> world
     \<Rightarrow> account list \<times> sms_service \<times> world" where
  "register_more tasks remaining 0 accounts s w = (accounts, s, w)"
| "register_more tasks remaining (Suc k) accounts s w =
     (let i = remaining - Suc k
      in case next_account (tasks (i + 1)) (i + 1 = remaining) s w of
           (Inr a, s1, w1) \<Rightarrow> register_more tasks remaining k (accounts @ [a]) s1 w1
         | (Inl e, s1, w1) \<Rightarrow> (let (s2, w2) = close s1 w1 in (accounts, s2, w2)))"

text \<open>
  The part of \<open>register_one\<close> under \<open>if binding_rule == "1:3"\<close>, entered with the
  account of the first task and its service: the loop, the two closing conditions after
  it, and the accounts of the result.
\<close>

definition register_batch ::
  "(nat \<Rightarrow> task) \<Rightarrow> account list \<Rightarrow> sms_service \<Rightarrow> world \<Rightarrow> account list \<times> sms_service \<times> world" where
  "register_batch tasks accounts s w =
     (if length accounts < 3 then
        (let remaining = 3 - length accounts;
             (accounts1, s1, w1) = register_more tasks remaining remaining accounts s w;
             (closed, s2, w2) = (if length accounts1 = 3 then (True, close s1 w1) else (False, s1, w1));
             (s3, w3) = (if length accounts1 < 3 \<and> \<not> closed then close s2 w2 else (s2, w2))
         in (if length accounts1 \<ge> 3 then drop (length accounts1 - 3) accounts1 else accounts1, s3, w3))
      else (if length accounts \<ge> 3 then drop (length accounts - 3) accounts else accounts, s, w))"

text \<open>
  The end of \<open>register_one\<close> under the \<open>1:3\<close> rule, once the first task has given
  its account: the batch, and the result with the accounts and their number.
\<close>

definition batch_result ::
  "(nat \<Rightarrow> task) \<Rightarrow> account \<Rightarrow> sms_service \<Rightarrow> world \<Rightarrow> (error + account list \<times> nat) \<times> world" where
  "batch_result tasks a s w =
     (let (accounts, s2, w2) = register_batch tasks [a] s w
      in (Inr (accounts, length accounts), w2))"

text \<open>
  The \<open>finally\<close> block as far as the SMS service goes: the service is closed when it
  still holds an activation.
\<close>

definition finally_close :: "sms_service \<Rightarrow> world \<Rightarrow> sms_service \<times> world" where
  "finally_close s w = (if truthy_id (activation_id s) then close s w else (s, w))"

text \<open>
  \<open>register_one(country_code, service_code, max_price, binding_rule)\<close>, the tasks being
  numbered from 0.  The browser is launched, the mailbox service and the driver are
  initialised and the SMS service is created, in this order.  An exception closes the
  service, if it has been created, in the handler and is raised again;
  under the \<open>1:3\<close> rule the service is handed to the batch and no longer closed by the
  \<open>finally\<close> block.  The result is the list of accounts and its length.
\<close>

definition register_one ::
  "flow_service \<Rightarrow> string option \<Rightarrow> string option \<Rightarrow> rat option \<Rightarrow> string \<Rightarrow> (nat \<Rightarrow> task) \<Rightarrow> world
     \<Rightarrow> (error + account list \<times> nat) \<times> world" where
  "register_one fs country_code service_code max_price_arg binding_rule tasks w =
     (let final_country = str_or country_code (flow_sms_country fs);
          final_service = str_or service_code (flow_sms_service fs);
          final_max_price = (case max_price_arg of Some p \<Rightarrow> p | None \<Rightarrow> flow_sms_max_price fs)
      in if \<not> launch_ok (tasks 0) then (Inl LaunchFailed, w)
         else case temp_mail_init (flow_tempmail_api_key fs) of
           Inl e \<Rightarrow> (Inl e, w)
         | Inr u \<Rightarrow>
            if \<not> driver_ok (tasks 0) then (Inl DriverInitFailed, w)
            else
            (let s = \<lparr>api_key = flow_sms_api_key fs, service = Some final_service,
                      country = Some final_country, max_price = Some final_max_price,
                      activation_id = None, phone_number = None\<rparr>
             in case first_account binding_rule (tasks 0) s w of
                  (Inl e, s1, w1) \<Rightarrow>
                    (let (s2, w2) = close s1 w1 in (Inl e, snd (finally_close s2 w2)))
                | (Inr a, s1, w1) \<Rightarrow>
                    if binding_rule = rule_1to3 then batch_result tasks a s1 w1
                    else (Inr ([a], 1), snd (finally_close s1 w1))))"

section \<open>Properties of the registration flow\<close>

lemma sleep_saved: "saved (sleep ms w) = saved w"
  by (simp add: sleep_def)

lemma handle_new_fails:
  "\<exists>e. handle_phone_verification pg False flag s w = (Inl e, s, sleep 10000 w)"
  by (simp add: handle_phone_verification_def sms_init_def acquire_new_fails Let_def)

lemma first_account_phone_fails:
  "\<exists>e. first_account_phone binding_rule t address s w = (Inl e, s, sleep 10000 w)"
proof -
  obtain e where "handle_phone_verification (task_page t) False (binding_rule = rule_1to1) s w
      = (Inl e, s, sleep 10000 w)"
    using handle_new_fails by blast
  then show ?thesis by (simp add: first_account_phone_def)
qed

lemma first_account_fails:
  "\<exists>e w1. first_account binding_rule t s w = (Inl e, s, w1) \<and> sent w1 = sent w \<and> saved w1 = saved w"
proof (cases "fst (get_email_address (mail_provider t) 10 fresh_mail)")
  case (Inl e)
  then show ?thesis by (simp add: first_account_def)
next
  case (Inr address)
  obtain e where p: "first_account_phone binding_rule t address s w = (Inl e, s, sleep 10000 w)"
    using first_account_phone_fails by blast
  show ?thesis
    using Inr p
    by (cases "register_result t"; cases "sora_onboarding t")
      (simp_all add: first_account_def sleep_sent sleep_saved)
qed

lemma close_without_activation:
  "activation_id s = None \<Longrightarrow> snd (close s w) = w \<and> activation_id (fst (close s w)) = None"
  by (simp add: close_def truthy_id_def)


lemma register_one_fails:
  "isl (fst (register_one fs cc sc mp binding_rule tasks w))
   \<and> sent (snd (register_one fs cc sc mp binding_rule tasks w)) = sent w
   \<and> saved (snd (register_one fs cc sc mp binding_rule tasks w)) = saved w"
proof -
  let ?s = "\<lparr>api_key = flow_sms_api_key fs, service = Some (str_or sc (flow_sms_service fs)),
             country = Some (str_or cc (flow_sms_country fs)),
             max_price = Some (case mp of Some p \<Rightarrow> p | None \<Rightarrow> flow_sms_max_price fs),
             activation_id = None, phone_number = None\<rparr>"
  obtain e w1 where f: "first_account binding_rule (tasks 0) ?s w = (Inl e, ?s, w1)"
    and s1: "sent w1 = sent w" and s2: "saved w1 = saved w"
    using first_account_fails [of binding_rule "tasks 0" ?s w] by blast
  have c: "close ?s w1 = (fst (close ?s w1), w1)"
    using close_without_activation [of ?s w1] by (simp add: prod_eq_iff)
  have d: "finally_close (fst (close ?s w1)) w1 = (fst (close ?s w1), w1)"
    using close_without_activation [of ?s w1] by (simp add: finally_close_def truthy_id_def)
  have "register_one fs cc sc mp binding_rule tasks w = (Inl LaunchFailed, w)
        \<or> register_one fs cc sc mp binding_rule tasks w = (Inl MailKeyUnset, w)
        \<or> register_one fs cc sc mp binding_rule tasks w = (Inl DriverInitFailed, w)
        \<or> register_one fs cc sc mp binding_rule tasks w = (Inl e, w1)"
    using f c d
    by (auto simp: register_one_def temp_mail_init_def Let_def split: prod.splits)
  then show ?thesis using s1 s2 by auto
qed



lemma close_cancels:
  assumes "activation_id s = Some i" and "i \<noteq> 0"
  shows "prefix (sent w @ [SetStatus STATUS_CANCEL i]) (sent (snd (close s w)))"
  using assms set_status_first [of s i w STATUS_CANCEL]
  by (simp add: close_def truthy_id_def cancel_world)

lemma code_attempts_service:
  "code_attempts pg k phone s w = (Inr r, s1, w1) \<Longrightarrow> s1 = s"
proof (cases k)
  case 0
  then show "code_attempts pg k phone s w = (Inr r, s1, w1) \<Longrightarrow> s1 = s" by simp
next
  case (Suc j)
  then show "code_attempts pg k phone s w = (Inr r, s1, w1) \<Longrightarrow> s1 = s"
    unfolding Suc code_attempts_Suc
    by (auto split: prod.splits sum.splits if_splits)
qed

lemma verify_with_phone_service:
  assumes "verify_with_phone pg flag phone s w = (Inr r, s1, w1)"
  shows "s1 = s"
proof -
  obtain q s3 w3 where c: "code_attempts pg max_retries phone s w = (q, s3, w3)"
    by (cases "code_attempts pg max_retries phone s w")
  show ?thesis
  proof (cases q)
    case (Inl e)
    then show ?thesis
      using assms c by (auto simp: verify_with_phone_def split: if_splits option.splits)
  next
    case (Inr cp)
    then have "s3 = s" using c code_attempts_service by blast
    then show ?thesis
      using assms c Inr
      by (auto simp: verify_with_phone_def Let_def split: if_splits option.splits prod.splits)
  qed
qed

















section \<open>Paths that follow a first lease\<close>

text \<open>
  By \<open>register_one_fails\<close> no run of \<open>register_one\<close> gets past the phone verification
  of its first task.  What the code after it would do is stated here for the functions
  entered on their own.  A verification that succeeds on a leased number with
  \<open>set_complete=True\<close> leaves the activation in the service, so that the \<open>finally\<close>
  block closes the service and requests the cancellation of the completed lease.
\<close>

lemma finally_cancels_completed_lease:
  assumes "activation_id s = Some i" and "i \<noteq> 0"
    and "verify_with_phone pg True phone s w = (Inr r, s1, w1)"
  shows "prefix (sent w1 @ [SetStatus STATUS_CANCEL i]) (sent (snd (finally_close s1 w1)))"
proof -
  have "s1 = s" using assms(3) by (rule verify_with_phone_service)
  then show ?thesis
    using assms(1,2) close_cancels [of s i w1] by (simp add: finally_close_def truthy_id_def)
qed

text \<open>
  The first task catches a failing onboarding and goes on to the phone verification;
  the body of the loop does not catch it.
\<close>

lemma first_task_catches_onboarding:
  assumes "fst (get_email_address (mail_provider t) 10 fresh_mail) = Inr address"
    and "register_result t = RegisterTrue" and "\<not> onboarding_ok t"
  shows "first_account binding_rule t s w = first_account_phone binding_rule t address s w"
  using assms by (simp add: first_account_def sora_onboarding_def)

lemma later_task_onboarding_not_caught:
  assumes "launch_ok t" and "driver_ok t"
    and "fst (get_email_address (mail_provider t) 10 fresh_mail) = Inr address"
    and "register_result t = RegisterTrue" and "\<not> onboarding_ok t"
  shows "next_account t is_last s w = (Inl OnboardingFailed, s, w)"
  using assms by (simp add: next_account_def sora_onboarding_def)

end
